theory Spec2Isabelle
  imports Main "HOL-Library.Word"
begin

section \<open>Values of the program\<close>

text \<open>
  A column value read from the store, and a field value of a Record: SQL NULL (Python
  \<^verbatim>\<open>None\<close>), an integer or a text. Strings are lists of characters; a character stands
  for the code point of the same number (0 to 255). Floating point values are not modelled.
\<close>

datatype scalar = SNone | SInt int | SStr string

text \<open>
  What the export functions receive as \<^verbatim>\<open>data\<close>: a dict with string keys in insertion
  order (a Record), a list, or anything else (a scalar).
\<close>

datatype pyval = PScalar scalar | PDict "(string \<times> scalar) list" | PList "pyval list"

datatype error =
  ValueError | AttributeError | TypeError | KeyError | EOFError | ExpatError | OperationalError

definition digit_char :: "nat \<Rightarrow> char" where
  "digit_char d = ''0123456789'' ! d"

function str_nat :: "nat \<Rightarrow> string" where
  "str_nat n = (if n < 10 then [digit_char n] else str_nat (n div 10) @ [digit_char (n mod 10)])"
  by pat_completeness auto
termination
  by (relation "measure id") auto

definition str_int :: "int \<Rightarrow> string" where
  "str_int i = (if i < 0 then CHR ''-'' # str_nat (nat (- i)) else str_nat (nat i))"

text \<open>Python's \<^verbatim>\<open>str(value)\<close> on a scalar.\<close>

fun py_str :: "scalar \<Rightarrow> string" where
  "py_str SNone = ''None''"
| "py_str (SInt i) = str_int i"
| "py_str (SStr s) = s"

section \<open>The persistent store\<close>

text \<open>
  Modelled from the spec: the schema script \<^verbatim>\<open>create_database.sql\<close> is not among the
  sources, so the tables and their columns are those of the spec's section 6 and of the
  SELECT statements of \<^verbatim>\<open>lookup.py\<close>. Key columns (\<^verbatim>\<open>student_id\<close>,
  \<^verbatim>\<open>course_code\<close>, \<^verbatim>\<open>teacher_id\<close>) hold text; the other columns hold any scalar, NULL
  included. A table is the list of its rows in the order a SELECT without ORDER BY
  returns them.
\<close>

record student_row =
  s_student_id :: string
  s_first_name :: scalar
  s_last_name :: scalar
  s_email :: scalar

record course_row =
  c_course_code :: string
  c_course_name :: scalar
  c_teacher_id :: string

record enrollment_row =
  e_student_id :: string
  e_course_code :: string
  e_is_complete :: scalar
  e_mark :: scalar

record db =
  Student :: "student_row list"
  Course :: "course_row list"
  StudentCourse :: "enrollment_row list"

text \<open>\<^verbatim>\<open>cur.fetchone()\<close>: the first row of the result, or \<^verbatim>\<open>None\<close>.\<close>

fun fetchone :: "'a list \<Rightarrow> 'a option" where
  "fetchone [] = None"
| "fetchone (r # rs) = Some r"

text \<open>
  \<^verbatim>\<open>get_student_info\<close>:
  \<^verbatim>\<open>SELECT first_name, last_name, email FROM Student WHERE student_id=?\<close>, then
  \<^verbatim>\<open>fetchone()\<close>.
\<close>

definition get_student_info :: "db \<Rightarrow> string \<Rightarrow> (scalar \<times> scalar \<times> scalar) option" where
  "get_student_info d student_id =
     fetchone (map (\<lambda>s. (s_first_name s, s_last_name s, s_email s))
                 (filter (\<lambda>s. s_student_id s = student_id) (Student d)))"

text \<open>
  \<^verbatim>\<open>get_course_name\<close>: \<^verbatim>\<open>SELECT course_name FROM Course WHERE course_code=?\<close>, then
  \<^verbatim>\<open>cur.fetchone()[0]\<close>. Subscripting \<^verbatim>\<open>None\<close> raises \<^verbatim>\<open>TypeError\<close>.
\<close>

definition get_course_name :: "db \<Rightarrow> string \<Rightarrow> error + scalar" where
  "get_course_name d course_code =
     (case fetchone (map c_course_name (filter (\<lambda>c. c_course_code c = course_code) (Course d))) of
        None \<Rightarrow> Inl TypeError
      | Some name \<Rightarrow> Inr name)"


section \<open>Printed text\<close>

text \<open>
  What \<^verbatim>\<open>print\<close> writes is kept as the list of the printed strings, one per call.
  \<^verbatim>\<open>bold s\<close> is the f-string fragment \<^verbatim>\<open>\033[1m...\033[0m\<close>.
\<close>

definition nl :: string where
  "nl = [CHR 0x0A]"

definition bold :: "string \<Rightarrow> string" where
  "bold s = CHR 0x1B # ''[1m'' @ s @ CHR 0x1B # ''[0m''"

text \<open>
  How a query operation ends: it printed lines and called \<^verbatim>\<open>offer_to_store\<close> on a
  Result Set, or printed lines and returned, or printed lines and asked the operator for
  another key (\<^verbatim>\<open>go_back_to_menu\<close>).
\<close>

datatype outcome =
  Offer "string list" pyval
| Done "string list"
| Retry "string list"

section \<open>Subjects taken by a student\<close>

text \<open>
  The body of the loop of \<^verbatim>\<open>view_subjects_by_student\<close> for one key, from the first
  \<^verbatim>\<open>cur.execute\<close> on: \<^verbatim>\<open>student_id\<close> is the operator's line after
  \<^verbatim>\<open>.upper().strip()\<close>. The second query binds one placeholder per code, that is one
  per enrollment row of the student, and selects the Course rows whose code is \<^verbatim>\<open>IN\<close>
  that list. SQLite refuses a statement with more host parameters than its limit
  (\<^verbatim>\<open>SQLITE_MAX_VARIABLE_NUMBER\<close>: 32766 by default, 999 before SQLite 3.32), and
  \<^verbatim>\<open>cur.execute\<close> then raises \<^verbatim>\<open>OperationalError\<close>. The limit is a constant of the SQLite
  library the program runs on: it is the parameter \<^verbatim>\<open>max_variables\<close>. Every other
  statement of the program binds one or two parameters and is within any such limit.
\<close>

fun print_subjects :: "(string \<times> scalar) list list \<Rightarrow> error + string list" where
  "print_subjects [] = Inr []"
| "print_subjects (subject_data # rest) =
     (case map_of subject_data ''course_name'' of
        None \<Rightarrow> Inl KeyError
      | Some name \<Rightarrow>
          (case print_subjects rest of
             Inl e \<Rightarrow> Inl e
           | Inr out \<Rightarrow> Inr ((nl @ bold ''Course Name:'' @ '' '' @ py_str name) # out)))"

definition view_subjects_by_student :: "nat \<Rightarrow> db \<Rightarrow> string \<Rightarrow> error + outcome" where
  "view_subjects_by_student max_variables d student_id =
     (let courses = map e_course_code
                      (filter (\<lambda>e. e_student_id e = student_id) (StudentCourse d))
      in if courses \<noteq> [] then
           (let course_codes = courses
            in if max_variables < length course_codes then Inl OperationalError
               else
                 (let subjects = map c_course_name
                                   (filter (\<lambda>c. c_course_code c \<in> set course_codes) (Course d))
                  in if subjects \<noteq> [] then
                       (let subjects_data = map (\<lambda>subject. [(''course_name'', subject)]) subjects
                        in case print_subjects subjects_data of
                             Inl e \<Rightarrow> Inl e
                           | Inr out \<Rightarrow>
                               Inr (Offer ((nl @ bold ''Subjects taken by the student:'') # out)
                                      (PList (map PDict subjects_data))))
                     else Inr (Done [nl @ ''No subjects found for this student.''])))
         else Inr (Retry [nl @ ''Incorrect student ID '' @ student_id @ ''. Please try again.'']))"

section \<open>Incomplete and low-scoring enrollments\<close>

text \<open>\<^verbatim>\<open>enumerate(rows, 1)\<close>.\<close>

definition enumerate1 :: "'a list \<Rightarrow> (nat \<times> 'a) list" where
  "enumerate1 xs = zip [1 ..< Suc (length xs)] xs"

text \<open>SQL \<^verbatim>\<open>is_complete = 0\<close>: NULL and text never compare equal to the number 0.\<close>

fun sql_eq_0 :: "scalar \<Rightarrow> bool" where
  "sql_eq_0 (SInt i) = (i = 0)"
| "sql_eq_0 SNone = False"
| "sql_eq_0 (SStr s) = False"

text \<open>
  SQL \<^verbatim>\<open>mark <= 30\<close>: a comparison with NULL is not true, and SQLite orders every
  text after every number.
\<close>

fun sql_le_30 :: "scalar \<Rightarrow> bool" where
  "sql_le_30 (SInt i) = (i \<le> 30)"
| "sql_le_30 SNone = False"
| "sql_le_30 (SStr s) = False"

text \<open>
  The loop of \<^verbatim>\<open>list_students_not_completed\<close> over the enumerated rows. Both lookups
  run before the test of \<^verbatim>\<open>student_info\<close>; a row tuple of three columns is truthy, so
  the test fails only on \<^verbatim>\<open>None\<close>. \<^verbatim>\<open>out\<close> collects the printed lines and
  \<^verbatim>\<open>incomplete_data\<close> the appended Records.
\<close>

fun not_completed_loop ::
  "db \<Rightarrow> (nat \<times> string \<times> string) list \<Rightarrow> string list \<Rightarrow> (string \<times> scalar) list list
     \<Rightarrow> error + (string list \<times> (string \<times> scalar) list list)" where
  "not_completed_loop d [] out incomplete_data = Inr (out, incomplete_data)"
| "not_completed_loop d ((count, student_id, course_code) # rest) out incomplete_data =
     (let student_info = get_student_info d student_id
      in case get_course_name d course_code of
           Inl e \<Rightarrow> Inl e
         | Inr course_name \<Rightarrow>
             (case student_info of
                None \<Rightarrow> not_completed_loop d rest out incomplete_data
              | Some (first_name, last_name, email) \<Rightarrow>
                  not_completed_loop d rest
                    (out @ [str_nat count @ ''. '' @ student_id @ '' '' @ py_str first_name
                            @ '' '' @ py_str last_name @ '' ('' @ py_str email
                            @ '') - Course: '' @ py_str course_name])
                    (incomplete_data @
                      [[(''student_id'', SStr student_id),
                        (''course_code'', SStr course_code),
                        (''first_name'', first_name),
                        (''last_name'', last_name),
                        (''email'', email),
                        (''course_name'', course_name)]])))"

definition list_students_not_completed :: "db \<Rightarrow> error + outcome" where
  "list_students_not_completed d =
     (let incomplete_courses = map (\<lambda>e. (e_student_id e, e_course_code e))
                                 (filter (\<lambda>e. sql_eq_0 (e_is_complete e)) (StudentCourse d))
      in if incomplete_courses \<noteq> [] then
           (case not_completed_loop d (enumerate1 incomplete_courses)
                   [nl @ bold ''Students who have not completed their courses:'' @ nl] [] of
              Inl e \<Rightarrow> Inl e
            | Inr (out, incomplete_data) \<Rightarrow> Inr (Offer out (PList (map PDict incomplete_data))))
         else Inr (Done [nl @ ''No students have incomplete courses.'']))"

text \<open>The loop of \<^verbatim>\<open>list_students_with_low_marks\<close>, with the mark as a seventh field.\<close>

fun low_marks_loop ::
  "db \<Rightarrow> (nat \<times> string \<times> string \<times> scalar) list \<Rightarrow> string list \<Rightarrow> (string \<times> scalar) list list
     \<Rightarrow> error + (string list \<times> (string \<times> scalar) list list)" where
  "low_marks_loop d [] out low_data = Inr (out, low_data)"
| "low_marks_loop d ((count, student_id, course_code, mark) # rest) out low_data =
     (let student_info = get_student_info d student_id
      in case get_course_name d course_code of
           Inl e \<Rightarrow> Inl e
         | Inr course_name \<Rightarrow>
             (case student_info of
                None \<Rightarrow> low_marks_loop d rest out low_data
              | Some (first_name, last_name, email) \<Rightarrow>
                  low_marks_loop d rest
                    (out @ [str_nat count @ ''. '' @ student_id @ '' '' @ py_str first_name
                            @ '' '' @ py_str last_name @ '' ('' @ py_str email
                            @ '') - Course: '' @ py_str course_name
                            @ '' - Mark: '' @ py_str mark])
                    (low_data @
                      [[(''student_id'', SStr student_id),
                        (''course_code'', SStr course_code),
                        (''first_name'', first_name),
                        (''last_name'', last_name),
                        (''email'', email),
                        (''course_name'', course_name),
                        (''mark'', mark)]])))"

text \<open>
  The query of \<^verbatim>\<open>list_students_with_low_marks\<close>:
  \<^verbatim>\<open>SELECT student_id, course_code, mark FROM StudentCourse WHERE mark <= 30\<close>.
\<close>

definition low_courses :: "db \<Rightarrow> (string \<times> string \<times> scalar) list" where
  "low_courses d = map (\<lambda>e. (e_student_id e, e_course_code e, e_mark e))
                     (filter (\<lambda>e. sql_le_30 (e_mark e)) (StudentCourse d))"

definition list_students_with_low_marks :: "db \<Rightarrow> error + outcome" where
  "list_students_with_low_marks d =
     (if low_courses d \<noteq> [] then
        (case low_marks_loop d (enumerate1 (low_courses d))
                [nl @ bold ''Students who have a mark below 30:'' @ nl] [] of
           Inl e \<Rightarrow> Inl e
         | Inr (out, low_data) \<Rightarrow> Inr (Offer out (PList (map PDict low_data))))
      else Inr (Done [nl @ ''No students have a mark below 30.'']))"

section \<open>Export files\<close>

text \<open>
  The file system is a map from file names to file contents, a content being a list of
  bytes. \<^verbatim>\<open>open(filename, 'w', encoding='utf-8')\<close> followed by \<^verbatim>\<open>write(text)\<close> replaces
  the content of the file by the UTF-8 encoding of the text; a code point below 128 is one
  byte, a code point from 128 to 255 is two. Opening is taken to succeed, and the text is
  written as it is (no newline translation, as on POSIX systems).
\<close>

type_synonym byte = "8 word"

type_synonym files = "string \<rightharpoonup> byte list"

definition utf8_char :: "char \<Rightarrow> byte list" where
  "utf8_char c =
     (let n = (of_char c :: nat)
      in if n < 128 then [of_nat n] else [of_nat (192 + n div 64), of_nat (128 + n mod 64)])"

definition utf8_encode :: "string \<Rightarrow> byte list" where
  "utf8_encode s = concat (map utf8_char s)"

definition write_text :: "files \<Rightarrow> string \<Rightarrow> string \<Rightarrow> files" where
  "write_text fs filename content = fs(filename \<mapsto> utf8_encode content)"

text \<open>
  Reading a file back as UTF-8 text. Only the one-byte and two-byte sequences of the
  code points 0 to 255 are decoded; any other byte sequence gives \<^verbatim>\<open>None\<close>.
\<close>

fun utf8_decode :: "byte list \<Rightarrow> string option" where
  "utf8_decode [] = Some []"
| "utf8_decode (b # bs) =
     (if unat b < 128 then map_option ((#) (char_of (unat b))) (utf8_decode bs)
      else if unat b = 194 \<or> unat b = 195 then
        (case bs of
           [] \<Rightarrow> None
         | b2 # bs' \<Rightarrow>
             if 128 \<le> unat b2 \<and> unat b2 < 192
             then map_option ((#) (char_of ((unat b - 192) * 64 + (unat b2 - 128)))) (utf8_decode bs')
             else None)
      else None)"

definition read_text :: "files \<Rightarrow> string \<Rightarrow> string option" where
  "read_text fs filename = (case fs filename of None \<Rightarrow> None | Some bytes \<Rightarrow> utf8_decode bytes)"

section \<open>The JSON serializer\<close>

text \<open>
  \<^verbatim>\<open>json.dumps(data, indent=4)\<close> of the standard library, on the values of the model, with
  the defaults the call leaves in place: \<^verbatim>\<open>ensure_ascii=True\<close>, the item separator
  \<^verbatim>\<open>,\<close> and the key separator \<^verbatim>\<open>: \<close>. A string is written between double quotes;
  the quote, the backslash and the control characters with a short escape get it, the
  other printable ASCII characters stand for themselves, and every other code point is
  written \<^verbatim>\<open>\uXXXX\<close> with four lower-case hexadecimal digits.
\<close>

definition hex_digit :: "nat \<Rightarrow> char" where
  "hex_digit d = ''0123456789abcdef'' ! d"

definition escape_char :: "char \<Rightarrow> string" where
  "escape_char c =
     (if c = CHR 0x22 then [CHR 0x5C, CHR 0x22]
      else if c = CHR 0x5C then [CHR 0x5C, CHR 0x5C]
      else if c = CHR 0x0A then [CHR 0x5C, CHR ''n'']
      else if c = CHR 0x0D then [CHR 0x5C, CHR ''r'']
      else if c = CHR 0x09 then [CHR 0x5C, CHR ''t'']
      else if c = CHR 0x08 then [CHR 0x5C, CHR ''b'']
      else if c = CHR 0x0C then [CHR 0x5C, CHR ''f'']
      else if 0x20 \<le> (of_char c :: nat) \<and> (of_char c :: nat) \<le> 0x7E then [c]
      else (let n = (of_char c :: nat)
            in [CHR 0x5C, CHR ''u'', hex_digit (n div 4096), hex_digit (n div 256 mod 16),
                hex_digit (n div 16 mod 16), hex_digit (n mod 16)]))"

definition encode_string :: "string \<Rightarrow> string" where
  "encode_string s = CHR 0x22 # concat (map escape_char s) @ [CHR 0x22]"

fun encode_scalar :: "scalar \<Rightarrow> string" where
  "encode_scalar SNone = ''null''"
| "encode_scalar (SInt i) = str_int i"
| "encode_scalar (SStr s) = encode_string s"

text \<open>\<^verbatim>\<open>'\n' + indent * level\<close> with an indent of four spaces.\<close>

definition newline_indent :: "nat \<Rightarrow> string" where
  "newline_indent level = CHR 0x0A # replicate (4 * level) CHR '' ''"

text \<open>The chunks of a non-empty container: the separator stands before every chunk but the first.\<close>

fun join :: "string \<Rightarrow> string list \<Rightarrow> string" where
  "join sep [] = []"
| "join sep [x] = x"
| "join sep (x # y # ys) = x @ sep @ join sep (y # ys)"

definition encode_item :: "string \<times> scalar \<Rightarrow> string" where
  "encode_item kv = encode_string (fst kv) @ '': '' @ encode_scalar (snd kv)"

definition encode_dict :: "nat \<Rightarrow> (string \<times> scalar) list \<Rightarrow> string" where
  "encode_dict level dct =
     (if dct = [] then ''{}''
      else ''{'' @ newline_indent (Suc level)
           @ join ('','' @ newline_indent (Suc level)) (map encode_item dct)
           @ newline_indent level @ ''}'')"

fun iterencode :: "nat \<Rightarrow> pyval \<Rightarrow> string" where
  "iterencode level (PScalar v) = encode_scalar v"
| "iterencode level (PDict dct) = encode_dict level dct"
| "iterencode level (PList lst) =
     (if lst = [] then ''[]''
      else ''['' @ newline_indent (Suc level)
           @ join ('','' @ newline_indent (Suc level)) (map (iterencode (Suc level)) lst)
           @ newline_indent level @ '']'')"

definition json_dumps :: "pyval \<Rightarrow> string" where
  "json_dumps data = iterencode 0 data"

text \<open>
  \<^verbatim>\<open>store_data_as_json\<close>: the new file system and the printed line. On the values of the
  model \<^verbatim>\<open>json.dumps\<close> raises nothing.
\<close>

definition store_data_as_json :: "pyval \<Rightarrow> string \<Rightarrow> files \<Rightarrow> error + files \<times> string list" where
  "store_data_as_json data filename fs =
     (let json_data = json_dumps data
      in Inr (write_text fs filename json_data,
              [nl @ ''Data successfully written to '' @ filename]))"

section \<open>Reading a JSON text back\<close>

text \<open>
  \<^verbatim>\<open>json.loads\<close> of the standard library, on the texts that denote a value of the model:
  \<^verbatim>\<open>null\<close>, integers, strings, objects whose values are such scalars, and arrays. Any
  other text (a syntax error, or a boolean, a float, a code point above 255 or a
  container inside an object) gives \<^verbatim>\<open>None\<close>.
\<close>

definition is_ws :: "char \<Rightarrow> bool" where
  "is_ws c = (c = CHR '' '' \<or> c = CHR 0x09 \<or> c = CHR 0x0A \<or> c = CHR 0x0D)"

definition skip_ws :: "string \<Rightarrow> string" where
  "skip_ws s = dropWhile is_ws s"

definition hex_value :: "char \<Rightarrow> nat option" where
  "hex_value c =
     (let n = (of_char c :: nat)
      in if 48 \<le> n \<and> n \<le> 57 then Some (n - 48)
         else if 97 \<le> n \<and> n \<le> 102 then Some (n - 87)
         else if 65 \<le> n \<and> n \<le> 70 then Some (n - 55)
         else None)"

text \<open>\<^verbatim>\<open>_decode_uXXXX\<close>: the value of four hexadecimal digits.\<close>

definition decode_uXXXX :: "char \<Rightarrow> char \<Rightarrow> char \<Rightarrow> char \<Rightarrow> nat option" where
  "decode_uXXXX h1 h2 h3 h4 =
     (case (hex_value h1, hex_value h2, hex_value h3, hex_value h4) of
        (Some a, Some b, Some c, Some d) \<Rightarrow> Some (((a * 16 + b) * 16 + c) * 16 + d)
      | _ \<Rightarrow> None)"

text \<open>The table \<^verbatim>\<open>BACKSLASH\<close> of the one-letter escapes.\<close>

definition backslash :: "char \<Rightarrow> char option" where
  "backslash esc =
     (if esc = CHR 0x22 then Some (CHR 0x22)
      else if esc = CHR 0x5C then Some (CHR 0x5C)
      else if esc = CHR ''/'' then Some (CHR ''/'')
      else if esc = CHR ''b'' then Some (CHR 0x08)
      else if esc = CHR ''f'' then Some (CHR 0x0C)
      else if esc = CHR ''n'' then Some (CHR 0x0A)
      else if esc = CHR ''r'' then Some (CHR 0x0D)
      else if esc = CHR ''t'' then Some (CHR 0x09)
      else None)"

text \<open>
  \<^verbatim>\<open>scanstring\<close>, from the character after the opening quote: the string and the text
  after the closing quote. A raw control character is an error (strict mode).
\<close>

fun scanstring :: "string \<Rightarrow> (string \<times> string) option" where
  "scanstring [] = None"
| "scanstring (c # cs) =
     (if c = CHR 0x22 then Some ([], cs)
      else if c = CHR 0x5C then
        (case cs of
           [] \<Rightarrow> None
         | esc # rest \<Rightarrow>
             if esc = CHR ''u'' then
               (case rest of
                  h1 # h2 # h3 # h4 # rest' \<Rightarrow>
                    (case decode_uXXXX h1 h2 h3 h4 of
                       None \<Rightarrow> None
                     | Some uni \<Rightarrow>
                         if uni < 256
                         then map_option (\<lambda>(chunks, end). (char_of uni # chunks, end)) (scanstring rest')
                         else None)
                | _ \<Rightarrow> None)
             else
               (case backslash esc of
                  None \<Rightarrow> None
                | Some char \<Rightarrow> map_option (\<lambda>(chunks, end). (char # chunks, end)) (scanstring rest)))
      else if (of_char c :: nat) < 0x20 then None
      else map_option (\<lambda>(chunks, end). (c # chunks, end)) (scanstring cs))"

text \<open>
  \<^verbatim>\<open>NUMBER_RE\<close>: an optional minus sign, then \<^verbatim>\<open>0\<close> or a digit from 1 to 9 followed by
  digits. When a fraction or an exponent follows, the number is a float.
\<close>

definition is_digit :: "char \<Rightarrow> bool" where
  "is_digit c = (48 \<le> (of_char c :: nat) \<and> (of_char c :: nat) \<le> 57)"

definition int_of_digits :: "string \<Rightarrow> nat" where
  "int_of_digits ds = foldl (\<lambda>a c. 10 * a + (of_char c - 48)) 0 ds"

fun has_frac_or_exp :: "string \<Rightarrow> bool" where
  "has_frac_or_exp (c # d # e # rest) =
     ((c = CHR ''.'' \<and> is_digit d)
      \<or> ((c = CHR ''e'' \<or> c = CHR ''E'')
          \<and> (is_digit d \<or> ((d = CHR ''+'' \<or> d = CHR ''-'') \<and> is_digit e))))"
| "has_frac_or_exp [c, d] = ((c = CHR ''.'' \<or> c = CHR ''e'' \<or> c = CHR ''E'') \<and> is_digit d)"
| "has_frac_or_exp [c] = False"
| "has_frac_or_exp [] = False"

definition match_integer :: "string \<Rightarrow> (string \<times> string) option" where
  "match_integer s =
     (case s of
        [] \<Rightarrow> None
      | c # cs \<Rightarrow>
          if c = CHR ''0'' then Some ([c], cs)
          else if is_digit c then Some (c # takeWhile is_digit cs, dropWhile is_digit cs)
          else None)"

definition scan_number :: "string \<Rightarrow> (scalar \<times> string) option" where
  "scan_number s =
     (case s of
        [] \<Rightarrow> None
      | c # cs \<Rightarrow>
          (case match_integer (if c = CHR ''-'' then cs else s) of
             None \<Rightarrow> None
           | Some (digits, end) \<Rightarrow>
               if has_frac_or_exp end then None
               else Some (SInt (if c = CHR ''-'' then - int (int_of_digits digits)
                                else int (int_of_digits digits)), end)))"

text \<open>The scalar cases of \<^verbatim>\<open>scan_once\<close>: a string, \<^verbatim>\<open>null\<close> or a number.\<close>

definition scan_scalar :: "string \<Rightarrow> (scalar \<times> string) option" where
  "scan_scalar s =
     (case s of
        [] \<Rightarrow> None
      | c # cs \<Rightarrow>
          if c = CHR 0x22 then map_option (\<lambda>(str, end). (SStr str, end)) (scanstring cs)
          else if c = CHR ''n'' \<and> take 4 s = ''null'' then Some (SNone, drop 4 s)
          else scan_number s)"

text \<open>
  \<^verbatim>\<open>dict(pairs)\<close>: a key seen again keeps its place and takes the later value.
\<close>

fun dict_setitem :: "(string \<times> 'v) list \<Rightarrow> string \<Rightarrow> 'v \<Rightarrow> (string \<times> 'v) list" where
  "dict_setitem [] k v = [(k, v)]"
| "dict_setitem ((k', v') # d) k v =
     (if k' = k then (k, v) # d else (k', v') # dict_setitem d k v)"

definition dict_of_pairs :: "(string \<times> 'v) list \<Rightarrow> (string \<times> 'v) list" where
  "dict_of_pairs pairs = foldl (\<lambda>d (k, v). dict_setitem d k v) [] pairs"

text \<open>
  The loop of \<^verbatim>\<open>JSONObject\<close>, from the character after the opening quote of a key: the
  pairs and the text after the closing brace. The first argument bounds the number of
  iterations; \<^verbatim>\<open>json_loads\<close> passes the length of the text, which no loop can exceed
  since every iteration consumes a character.
\<close>

fun parse_pairs :: "nat \<Rightarrow> string \<Rightarrow> ((string \<times> scalar) list \<times> string) option" where
  "parse_pairs 0 s = None"
| "parse_pairs (Suc n) s =
     (case scanstring s of
        None \<Rightarrow> None
      | Some (key, s1) \<Rightarrow>
          (case skip_ws s1 of
             [] \<Rightarrow> None
           | colon # s2 \<Rightarrow>
               if colon \<noteq> CHR '':'' then None
               else
                 (case scan_scalar (skip_ws s2) of
                    None \<Rightarrow> None
                  | Some (value, s3) \<Rightarrow>
                      (case skip_ws s3 of
                         [] \<Rightarrow> None
                       | nextchar # s4 \<Rightarrow>
                           if nextchar = CHR ''}'' then Some ([(key, value)], s4)
                           else if nextchar \<noteq> CHR '','' then None
                           else
                             (case skip_ws s4 of
                                [] \<Rightarrow> None
                              | quote # s5 \<Rightarrow>
                                  if quote \<noteq> CHR 0x22 then None
                                  else map_option (\<lambda>(pairs, end). ((key, value) # pairs, end))
                                         (parse_pairs n s5))))))"

text \<open>\<^verbatim>\<open>scan_once\<close> and the loop of \<^verbatim>\<open>JSONArray\<close>, with the same bound.\<close>

fun scan_once :: "nat \<Rightarrow> string \<Rightarrow> (pyval \<times> string) option"
  and parse_values :: "nat \<Rightarrow> string \<Rightarrow> (pyval list \<times> string) option" where
  "scan_once 0 s = None"
| "scan_once (Suc n) s =
     (case s of
        [] \<Rightarrow> None
      | nextchar # s1 \<Rightarrow>
          if nextchar = CHR ''{'' then
            (case skip_ws s1 of
               [] \<Rightarrow> None
             | c # s2 \<Rightarrow>
                 if c = CHR ''}'' then Some (PDict [], s2)
                 else if c = CHR 0x22
                 then map_option (\<lambda>(pairs, end). (PDict (dict_of_pairs pairs), end)) (parse_pairs n s2)
                 else None)
          else if nextchar = CHR ''['' then
            (case skip_ws s1 of
               [] \<Rightarrow> None
             | c # s2 \<Rightarrow>
                 if c = CHR '']'' then Some (PList [], s2)
                 else map_option (\<lambda>(values, end). (PList values, end)) (parse_values n (c # s2)))
          else map_option (\<lambda>(v, end). (PScalar v, end)) (scan_scalar s))"
| "parse_values 0 s = None"
| "parse_values (Suc n) s =
     (case scan_once n s of
        None \<Rightarrow> None
      | Some (value, s1) \<Rightarrow>
          (case skip_ws s1 of
             [] \<Rightarrow> None
           | nextchar # s2 \<Rightarrow>
               if nextchar = CHR '']'' then Some ([value], s2)
               else if nextchar \<noteq> CHR '','' then None
               else map_option (\<lambda>(values, end). (value # values, end))
                      (parse_values n (skip_ws s2))))"

text \<open>
  \<^verbatim>\<open>JSONDecoder.decode\<close>: whitespace, one value, whitespace, and the end of the text.
\<close>

definition json_loads :: "string \<Rightarrow> pyval option" where
  "json_loads s =
     (case scan_once (length s) (skip_ws s) of
        None \<Rightarrow> None
      | Some (obj, end) \<Rightarrow> if skip_ws end = [] then Some obj else None)"

text \<open>
  A value is well formed when the keys of every dict are distinct, as they are in a
  Python dict. \<^verbatim>\<open>depth_bound\<close> bounds the number of nested calls the reader makes on
  the text of a value.
\<close>

fun well_formed :: "pyval \<Rightarrow> bool" where
  "well_formed (PScalar v) = True"
| "well_formed (PDict dct) = distinct (map fst dct)"
| "well_formed (PList lst) = list_all well_formed lst"

fun depth_bound :: "pyval \<Rightarrow> nat" where
  "depth_bound (PScalar v) = 1"
| "depth_bound (PDict dct) = Suc (length dct)"
| "depth_bound (PList lst) = Suc (sum_list (map (\<lambda>x. Suc (depth_bound x)) lst))"

section \<open>The XML serializer\<close>

text \<open>
  An element of \<^verbatim>\<open>xml.etree.ElementTree\<close>: its tag, its text (\<^verbatim>\<open>None\<close> until it is
  set) and its children in order.
\<close>

datatype xml = Element (el_tag: string) (el_text: "string option") (el_children: "xml list")

text \<open>
  \<^verbatim>\<open>ET.SubElement(parent, tag)\<close> appends a new element to the children of the parent and
  returns it. The code keeps a reference to the new element and goes on changing it
  while it hangs in the tree; in the model the new element is the last child of the
  parent, and \<^verbatim>\<open>on_last_child\<close> applies a change to it in place.
\<close>

definition SubElement :: "xml \<Rightarrow> string \<Rightarrow> xml" where
  "SubElement parent t = Element (el_tag parent) (el_text parent) (el_children parent @ [Element t None []])"

definition on_last_child :: "(xml \<Rightarrow> xml) \<Rightarrow> xml \<Rightarrow> xml" where
  "on_last_child f parent =
     (case rev (el_children parent) of
        [] \<Rightarrow> parent
      | c # cs \<Rightarrow> Element (el_tag parent) (el_text parent) (rev cs @ [f c]))"

definition set_text :: "string \<Rightarrow> xml \<Rightarrow> xml" where
  "set_text s e = Element (el_tag e) (Some s) (el_children e)"

text \<open>
  \<^verbatim>\<open>for key, value in item.items(): child = ET.SubElement(parent, key); child.text = str(value)\<close>
\<close>

fun add_fields :: "xml \<Rightarrow> (string \<times> scalar) list \<Rightarrow> xml" where
  "add_fields parent [] = parent"
| "add_fields parent ((key, value) # items) =
     add_fields (on_last_child (set_text (py_str value)) (SubElement parent key)) items"

text \<open>
  \<^verbatim>\<open>for item in data: item_element = ET.SubElement(root, "item"); for key, value in item.items(): ...\<close>
  Only a dict has \<^verbatim>\<open>items\<close>: on any other element of the list the attribute lookup
  raises \<^verbatim>\<open>AttributeError\<close>.
\<close>

fun add_items :: "xml \<Rightarrow> pyval list \<Rightarrow> error + xml" where
  "add_items root [] = Inr root"
| "add_items root (item # rest) =
     (let root1 = SubElement root ''item''
      in case item of
           PDict dct \<Rightarrow> add_items (on_last_child (\<lambda>item_element. add_fields item_element dct) root1) rest
         | PList lst \<Rightarrow> Inl AttributeError
         | PScalar v \<Rightarrow> Inl AttributeError)"

text \<open>Lines 74 to 88 of \<^verbatim>\<open>store_data_as_xml\<close>: the element tree, or the error raised.\<close>

definition build_tree :: "pyval \<Rightarrow> error + xml" where
  "build_tree data =
     (let root = Element ''data'' None []
      in case data of
           PList lst \<Rightarrow> add_items root lst
         | PDict dct \<Rightarrow> Inr (add_fields root dct)
         | PScalar v \<Rightarrow> Inl ValueError)"

text \<open>
  The rest of \<^verbatim>\<open>store_data_as_xml\<close>. The three library calls that turn the tree into the
  pretty-printed text (\<^verbatim>\<open>ET.tostring\<close>, \<^verbatim>\<open>minidom.parseString\<close>, \<^verbatim>\<open>toprettyxml\<close>) are not
  code of the repository: they are the parameter \<^verbatim>\<open>pretty\<close>, a function of the tree that
  gives the text or raises.
\<close>

type_synonym printer = "xml \<Rightarrow> error + string"

definition store_data_as_xml ::
  "printer \<Rightarrow> pyval \<Rightarrow> string \<Rightarrow> files \<Rightarrow> error + files \<times> string list" where
  "store_data_as_xml pretty data filename fs =
     (case build_tree data of
        Inl e \<Rightarrow> Inl e
      | Inr root \<Rightarrow>
          (case pretty root of
             Inl e \<Rightarrow> Inl e
           | Inr pretty_xml \<Rightarrow>
               Inr (write_text fs filename pretty_xml,
                    [nl @ ''Data successfully written to '' @ filename])))"

section \<open>The library calls that print the tree\<close>











section \<open>The export prompt\<close>

text \<open>
  \<^verbatim>\<open>str.isspace\<close>, \<^verbatim>\<open>str.strip\<close>, \<^verbatim>\<open>str.lower\<close> and \<^verbatim>\<open>str.split\<close> on the code points 0 to 255.
\<close>

definition py_isspace :: "char \<Rightarrow> bool" where
  "py_isspace c =
     (let n = (of_char c :: nat)
      in (9 \<le> n \<and> n \<le> 13) \<or> (28 \<le> n \<and> n \<le> 32) \<or> n = 133 \<or> n = 160)"

definition strip :: "string \<Rightarrow> string" where
  "strip s = rev (dropWhile py_isspace (rev (dropWhile py_isspace s)))"

definition lower_char :: "char \<Rightarrow> char" where
  "lower_char c =
     (let n = (of_char c :: nat)
      in if (65 \<le> n \<and> n \<le> 90) \<or> (192 \<le> n \<and> n \<le> 222 \<and> n \<noteq> 215) then char_of (n + 32) else c)"

definition lower :: "string \<Rightarrow> string" where
  "lower s = map lower_char s"

text \<open>\<^verbatim>\<open>s.split(sep)\<close> for a separator of one character: the pieces between the separators.\<close>

fun split :: "char \<Rightarrow> string \<Rightarrow> string list" where
  "split sep [] = [[]]"
| "split sep (c # cs) =
     (if c = sep then [] # split sep cs
      else (case split sep cs of [] \<Rightarrow> [[c]] | p # ps \<Rightarrow> (c # p) # ps))"

text \<open>
  The inner loop of \<^verbatim>\<open>offer_to_store\<close> (lines 117 to 133), entered once the operator has
  answered 1. \<^verbatim>\<open>inputs\<close> are the lines the operator will type; \<^verbatim>\<open>input\<close> raises
  \<^verbatim>\<open>EOFError\<close> when none is left. \<^verbatim>\<open>out\<close> collects what \<^verbatim>\<open>print\<close> writes.
\<close>

fun filename_loop ::
  "printer \<Rightarrow> pyval \<Rightarrow> string list \<Rightarrow> files \<Rightarrow> string list \<Rightarrow> error + files \<times> string list" where
  "filename_loop pretty data [] fs out = Inl EOFError"
| "filename_loop pretty data (line # inputs) fs out =
     (let filename = strip line
      in if filename = [] \<or> CHR ''.'' \<notin> set filename \<or> hd (split CHR ''.'' filename) = []
         then filename_loop pretty data inputs fs
                (out @ [nl @ ''Invalid filename. Please enter a valid filename with a base name and .xml or .json extension.''])
         else
           (let ext = lower (last (split CHR ''.'' filename))
            in if ext = ''xml'' then
                 (case store_data_as_xml pretty data filename fs of
                    Inl e \<Rightarrow> Inl e
                  | Inr (fs', printed) \<Rightarrow> Inr (fs', out @ printed))
               else if ext = ''json'' then
                 (case store_data_as_json data filename fs of
                    Inl e \<Rightarrow> Inl e
                  | Inr (fs', printed) \<Rightarrow> Inr (fs', out @ printed))
               else filename_loop pretty data inputs fs
                      (out @ [nl @ ''Invalid file extension. Please use .xml or .json.''])))"

section \<open>Example stores\<close>

text \<open>
  A student enrolled in the codes C1 and C2, where the Course table names C1 only.
\<close>

definition two_codes_db :: db where
  "two_codes_db =
     \<lparr>Student = [],
      Course = [\<lparr>c_course_code = ''C1'', c_course_name = SStr ''Maths'', c_teacher_id = ''T1''\<rparr>],
      StudentCourse =
        [\<lparr>e_student_id = ''S1'', e_course_code = ''C1'', e_is_complete = SInt 1, e_mark = SInt 70\<rparr>,
         \<lparr>e_student_id = ''S1'', e_course_code = ''C2'', e_is_complete = SInt 0, e_mark = SNone\<rparr>]\<rparr>"

text \<open>
  A student with 32767 enrollment rows, one more than the default limit of SQLite on
  the parameters of a statement.
\<close>

definition crowded_db :: db where
  "crowded_db =
     \<lparr>Student = [],
      Course = [\<lparr>c_course_code = ''C1'', c_course_name = SStr ''Maths'', c_teacher_id = ''T1''\<rparr>],
      StudentCourse =
        map (\<lambda>n. \<lparr>e_student_id = ''S1'', e_course_code = ''C'' @ str_nat n,
                   e_is_complete = SInt 0, e_mark = SNone\<rparr>) [0 ..< 32767]\<rparr>"

text \<open>Two enrollment rows, with the marks 30 and 31.\<close>

definition mark_30 :: enrollment_row where
  "mark_30 = \<lparr>e_student_id = ''S1'', e_course_code = ''C1'', e_is_complete = SInt 1, e_mark = SInt 30\<rparr>"

definition mark_31 :: enrollment_row where
  "mark_31 = \<lparr>e_student_id = ''S2'', e_course_code = ''C1'', e_is_complete = SInt 1, e_mark = SInt 31\<rparr>"

definition marks_db :: db where
  "marks_db = \<lparr>Student = [], Course = [], StudentCourse = [mark_30, mark_31]\<rparr>"

text \<open>
  One incomplete enrollment with the mark 10, whose course code has no Course row and
  whose student has no Student row.
\<close>

definition orphan_db :: db where
  "orphan_db =
     \<lparr>Student = [], Course = [],
      StudentCourse =
        [\<lparr>e_student_id = ''S9'', e_course_code = ''C9'', e_is_complete = SInt 0, e_mark = SInt 10\<rparr>]\<rparr>"

text \<open>
  A stand-in for the library calls that print the tree, for the examples: it gives the
  tag of the root. And the address Record of the spec's end-to-end example.
\<close>

definition tag_printer :: printer where
  "tag_printer root = Inr (el_tag root)"

definition address_data :: pyval where
  "address_data = PDict [(''street'', SStr ''12 Oak Ave''), (''city'', SStr ''Springfield'')]"

section \<open>Properties of the Query Layer\<close>


lemma print_subjects_ok:
  "print_subjects (map (\<lambda>x. [(''course_name'', f x)]) xs) =
     Inr (map (\<lambda>x. nl @ bold ''Course Name:'' @ '' '' @ py_str (f x)) xs)"
  by (induction xs) simp_all

text \<open>
  C7. The claim: no lookup of the Query Layer raises when its key matches no row, the
  course-name lookup included. \<^verbatim>\<open>get_course_name\<close> subscripts the result of
  \<^verbatim>\<open>fetchone()\<close> without a test, so on a course code with no Course row it raises
  \<^verbatim>\<open>TypeError\<close>; here at the code C9 of a store whose Course table is empty.
\<close>

theorem get_course_name_miss_raises:
  "get_course_name orphan_db ''C9'' = Inl TypeError"
  by (simp add: get_course_name_def orphan_db_def)

text \<open>
  The lookup of a student's subjects raises only when the student has more enrollment
  rows than a statement may bind parameters: with no enrollment row it reports the key
  and asks again, and \<^verbatim>\<open>get_student_info\<close> gives \<^verbatim>\<open>None\<close> for a key with no row.
\<close>

lemma view_subjects_raises_iff:
  "(\<exists>e. view_subjects_by_student max_variables d student_id = Inl e) \<longleftrightarrow>
     max_variables < length (filter (\<lambda>e. e_student_id e = student_id) (StudentCourse d))"
  by (auto simp: view_subjects_by_student_def Let_def print_subjects_ok comp_def)

lemma view_subjects_lookup_miss:
  "filter (\<lambda>e. e_student_id e = student_id) (StudentCourse d) = [] \<Longrightarrow>
   view_subjects_by_student max_variables d student_id =
     Inr (Retry [nl @ ''Incorrect student ID '' @ student_id @ ''. Please try again.''])"
  by (simp add: view_subjects_by_student_def)

lemma get_student_info_miss:
  "filter (\<lambda>s. s_student_id s = student_id) (Student d) = [] \<Longrightarrow> get_student_info d student_id = None"
  by (simp add: get_student_info_def)

text \<open>
  C8, as amended. In the two-step lookup of a student's subjects, when the student has
  enrollment rows and no more of them than a statement may bind parameters, the
  operation raises nothing and the Result Set it offers holds one Record per Course row
  whose code is among the student's codes, in the order of the Course table; a code with
  no Course row adds nothing. When no code has a Course row, nothing is offered. When
  the student has more enrollment rows than the limit, the second query raises
  \<^verbatim>\<open>OperationalError\<close>. For the student enrolled in C1 and C2 where only C1 has a Course
  row, the Result Set has exactly one Record.
\<close>

theorem view_subjects_drops_codes_without_name:
  "(filter (\<lambda>e. e_student_id e = sid) (StudentCourse d) \<noteq> []
    \<and> length (filter (\<lambda>e. e_student_id e = sid) (StudentCourse d)) \<le> max_variables \<longrightarrow>
     (\<exists>out. view_subjects_by_student max_variables d sid =
        Inr (if filter (\<lambda>c. \<exists>e \<in> set (StudentCourse d).
                          e_student_id e = sid \<and> e_course_code e = c_course_code c) (Course d) = []
             then Done out
             else Offer out
                    (PList (map (\<lambda>c. PDict [(''course_name'', c_course_name c)])
                       (filter (\<lambda>c. \<exists>e \<in> set (StudentCourse d).
                          e_student_id e = sid \<and> e_course_code e = c_course_code c) (Course d)))))))
   \<and> (max_variables < length (filter (\<lambda>e. e_student_id e = sid) (StudentCourse d)) \<longrightarrow>
        view_subjects_by_student max_variables d sid = Inl OperationalError)
   \<and> (2 \<le> max_variables \<longrightarrow>
        (\<exists>out. view_subjects_by_student max_variables two_codes_db ''S1'' =
           Inr (Offer out (PList [PDict [(''course_name'', SStr ''Maths'')]]))))"
proof (intro conjI impI)
  let ?rows = "filter (\<lambda>e. e_student_id e = sid) (StudentCourse d)"
  let ?codes = "map e_course_code ?rows"
  let ?P = "\<lambda>c. \<exists>e \<in> set (StudentCourse d). e_student_id e = sid \<and> e_course_code e = c_course_code c"
  assume "?rows \<noteq> [] \<and> length ?rows \<le> max_variables"
  then have ne: "?codes \<noteq> []" and within: "\<not> max_variables < length ?codes"
    by simp_all
  have same: "filter (\<lambda>c. c_course_code c \<in> set ?codes) (Course d) = filter ?P (Course d)"
    by (rule filter_cong) (auto simp: image_iff)
  show "\<exists>out. view_subjects_by_student max_variables d sid =
        Inr (if filter ?P (Course d) = [] then Done out
             else Offer out (PList (map (\<lambda>c. PDict [(''course_name'', c_course_name c)]) (filter ?P (Course d)))))"
  proof (cases "filter ?P (Course d) = []")
    case True
    with ne within same show ?thesis
      by (simp add: view_subjects_by_student_def Let_def)
  next
    case False
    with ne within same show ?thesis
      by (simp add: view_subjects_by_student_def Let_def print_subjects_ok comp_def)
  qed
next
  assume "max_variables < length (filter (\<lambda>e. e_student_id e = sid) (StudentCourse d))"
  then show "view_subjects_by_student max_variables d sid = Inl OperationalError"
    by (auto simp: view_subjects_by_student_def Let_def)
next
  assume "2 \<le> max_variables"
  then show "\<exists>out. view_subjects_by_student max_variables two_codes_db ''S1'' =
          Inr (Offer out (PList [PDict [(''course_name'', SStr ''Maths'')]]))"
    by (simp add: view_subjects_by_student_def two_codes_db_def)
qed

theorem view_subjects_drops_codes_without_name_witness:
  "map e_course_code (filter (\<lambda>e. e_student_id e = ''S1'') (StudentCourse two_codes_db)) = [''C1'', ''C2'']
   \<and> length (filter (\<lambda>e. e_student_id e = ''S1'') (StudentCourse two_codes_db)) \<le> 32766
   \<and> (\<exists>out. view_subjects_by_student 32766 two_codes_db ''S1'' =
          Inr (Offer out (PList [PDict [(''course_name'', SStr ''Maths'')]])))
   \<and> length (filter (\<lambda>e. e_student_id e = ''S1'') (StudentCourse crowded_db)) = 32767
   \<and> view_subjects_by_student 32766 crowded_db ''S1'' = Inl OperationalError"
  using view_subjects_drops_codes_without_name [of "''S1''" two_codes_db 32766]
    view_subjects_drops_codes_without_name [of "''S1''" crowded_db 32766]
  by (simp add: two_codes_db_def crowded_db_def filter_map comp_def)

text \<open>
  C8 as stated fails on a student with more enrollment rows than a statement may bind
  parameters: with the default limit of 32766 and 32767 enrollment rows the second query
  raises \<^verbatim>\<open>OperationalError\<close>, where the claim says the codes with no Course row are
  dropped without an error.
\<close>

theorem view_subjects_raises_over_the_limit:
  "view_subjects_by_student 32766 crowded_db ''S1'' = Inl OperationalError"
  by (simp add: view_subjects_by_student_def crowded_db_def filter_map comp_def)

text \<open>
  C9. An enrollment row is selected by the query of the low-scoring listing if and only
  if its mark is a number that is at most 30 (a NULL mark is never selected); a row with
  the mark 30 is selected.
\<close>

theorem low_marks_threshold:
  "(e \<in> set (StudentCourse d) \<longrightarrow>
      ((e_student_id e, e_course_code e, e_mark e) \<in> set (low_courses d)
         \<longleftrightarrow> (\<exists>m. e_mark e = SInt m \<and> m \<le> 30)))
   \<and> (e \<in> set (StudentCourse d) \<and> e_mark e = SInt 30 \<longrightarrow>
      (e_student_id e, e_course_code e, SInt 30) \<in> set (low_courses d))"
proof -
  have sel: "((e_student_id e, e_course_code e, e_mark e) \<in> set (low_courses d))
      = (\<exists>m. e_mark e = SInt m \<and> m \<le> 30)"
    if "e \<in> set (StudentCourse d)"
  proof
    assume "(e_student_id e, e_course_code e, e_mark e) \<in> set (low_courses d)"
    then have "\<exists>x \<in> set (StudentCourse d). sql_le_30 (e_mark x) \<and> e_mark e = e_mark x"
      by (auto simp: low_courses_def)
    then have "sql_le_30 (e_mark e)" by auto
    then show "\<exists>m. e_mark e = SInt m \<and> m \<le> 30"
      by (cases "e_mark e") auto
  next
    assume "\<exists>m. e_mark e = SInt m \<and> m \<le> 30"
    then have "sql_le_30 (e_mark e)" by auto
    with that show "(e_student_id e, e_course_code e, e_mark e) \<in> set (low_courses d)"
      by (force simp: low_courses_def)
  qed
  show ?thesis using sel by auto
qed

theorem low_marks_threshold_witness:
  "mark_30 \<in> set (StudentCourse marks_db) \<and> e_mark mark_30 = SInt 30
   \<and> (e_student_id mark_30, e_course_code mark_30, SInt 30) \<in> set (low_courses marks_db)
   \<and> mark_31 \<in> set (StudentCourse marks_db) \<and> e_mark mark_31 = SInt 31
   \<and> (e_student_id mark_31, e_course_code mark_31, e_mark mark_31) \<notin> set (low_courses marks_db)"
  using low_marks_threshold [of mark_30 marks_db] low_marks_threshold [of mark_31 marks_db]
  by (simp add: marks_db_def mark_30_def mark_31_def)

text \<open>
  When every selected row has a Course row, both loops raise nothing and append one
  Record for each row whose student has a Student row, and none for the others.
\<close>

lemma not_completed_loop_skips_unknown_students:
  "\<forall>row \<in> set rows. get_course_name d (snd (snd row)) \<noteq> Inl TypeError \<Longrightarrow>
   map_sum id snd (not_completed_loop d rows out0 incomplete_data) =
           Inr (incomplete_data @
                  map (\<lambda>(count, student_id, course_code).
                         [(''student_id'', SStr student_id), (''course_code'', SStr course_code),
                          (''first_name'', fst (the (get_student_info d student_id))),
                          (''last_name'', fst (snd (the (get_student_info d student_id)))),
                          (''email'', snd (snd (the (get_student_info d student_id)))),
                          (''course_name'', projr (get_course_name d course_code))])
                    (filter (\<lambda>(count, student_id, course_code). get_student_info d student_id \<noteq> None) rows))"
proof (induction rows arbitrary: out0 incomplete_data)
  case Nil
  then show ?case by simp
next
  case (Cons row rows)
  obtain count student_id course_code where row: "row = (count, student_id, course_code)"
    by (cases row)
  have "get_course_name d course_code \<noteq> Inl TypeError"
    using Cons.prems by (simp add: row)
  then obtain name where name: "get_course_name d course_code = Inr name"
    by (auto simp: get_course_name_def split: option.splits)
  have rest: "\<forall>row \<in> set rows. get_course_name d (snd (snd row)) \<noteq> Inl TypeError"
    using Cons.prems by simp
  show ?case
  proof (cases "get_student_info d student_id")
    case None
    with Cons.IH [OF rest, of out0 incomplete_data] show ?thesis
      by (simp add: row name)
  next
    case (Some info)
    obtain first_name last_name email where info: "info = (first_name, last_name, email)"
      by (cases info)
    from Cons.IH [OF rest] Some show ?thesis
      by (simp add: row name info)
  qed
qed

lemma low_marks_loop_skips_unknown_students:
  "\<forall>row \<in> set rows. get_course_name d (fst (snd (snd row))) \<noteq> Inl TypeError \<Longrightarrow>
   map_sum id snd (low_marks_loop d rows out0 low_data) =
           Inr (low_data @
                  map (\<lambda>(count, student_id, course_code, mark).
                         [(''student_id'', SStr student_id), (''course_code'', SStr course_code),
                          (''first_name'', fst (the (get_student_info d student_id))),
                          (''last_name'', fst (snd (the (get_student_info d student_id)))),
                          (''email'', snd (snd (the (get_student_info d student_id)))),
                          (''course_name'', projr (get_course_name d course_code)),
                          (''mark'', mark)])
                    (filter (\<lambda>(count, student_id, course_code, mark). get_student_info d student_id \<noteq> None) rows))"
proof (induction rows arbitrary: out0 low_data)
  case Nil
  then show ?case by simp
next
  case (Cons row rows)
  obtain count student_id course_code mark where row: "row = (count, student_id, course_code, mark)"
    by (cases row)
  have "get_course_name d course_code \<noteq> Inl TypeError"
    using Cons.prems by (simp add: row)
  then obtain name where name: "get_course_name d course_code = Inr name"
    by (auto simp: get_course_name_def split: option.splits)
  have rest: "\<forall>row \<in> set rows. get_course_name d (fst (snd (snd row))) \<noteq> Inl TypeError"
    using Cons.prems by simp
  show ?case
  proof (cases "get_student_info d student_id")
    case None
    with Cons.IH [OF rest, of out0 low_data] show ?thesis
      by (simp add: row name)
  next
    case (Some info)
    obtain first_name last_name email where info: "info = (first_name, last_name, email)"
      by (cases info)
    from Cons.IH [OF rest] Some show ?thesis
      by (simp add: row name info)
  qed
qed

text \<open>
  C10. The claim: in both listings a selected enrollment row whose student has no
  Student row is left out with no error. Both loops call \<^verbatim>\<open>get_course_name\<close> before
  they test \<^verbatim>\<open>student_info\<close>, so on a selected row whose course code has no Course
  row both listings raise \<^verbatim>\<open>TypeError\<close>, whether the student exists or not.
\<close>

theorem listings_raise_on_missing_course:
  "list_students_not_completed orphan_db = Inl TypeError \<and>
   list_students_with_low_marks orphan_db = Inl TypeError"
  by (simp add: list_students_not_completed_def list_students_with_low_marks_def low_courses_def
      orphan_db_def enumerate1_def get_course_name_def get_student_info_def)


section \<open>Properties of the XML serializer\<close>

lemma add_fields_children:
  "add_fields parent dct =
     Element (el_tag parent) (el_text parent)
       (el_children parent @ map (\<lambda>(key, value). Element key (Some (py_str value)) []) dct)"
proof (induction dct arbitrary: parent)
  case Nil
  then show ?case by simp
next
  case (Cons kv dct)
  obtain key "value" where kv: "kv = (key, value)" by (cases kv)
  show ?case
    by (simp add: kv Cons.IH SubElement_def on_last_child_def set_text_def)
qed

lemma add_items_children:
  "add_items root (map PDict records) =
     Inr (Element (el_tag root) (el_text root)
       (el_children root @
          map (\<lambda>r. Element ''item'' None
                 (map (\<lambda>(key, value). Element key (Some (py_str value)) []) r)) records))"
proof (induction records arbitrary: root)
  case Nil
  then show ?case by simp
next
  case (Cons r records)
  show ?case
    by (simp add: Cons.IH SubElement_def on_last_child_def add_fields_children)
qed

text \<open>
  The tree that lines 74 to 88 build: for a sequence of Records the root \<^verbatim>\<open>data\<close> with one
  child \<^verbatim>\<open>item\<close> per Record, each holding one leaf per field in the Record's field order,
  whose tag is the field name and whose text is \<^verbatim>\<open>str\<close> of the field value; for a single
  Record the root holds those leaves directly.
\<close>

lemma build_tree_shape:
  "build_tree (PList (map PDict records)) =
     Inr (Element ''data'' None
       (map (\<lambda>r. Element ''item'' None
               (map (\<lambda>(key, value). Element key (Some (py_str value)) []) r)) records))
   \<and> build_tree (PDict r) =
     Inr (Element ''data'' None (map (\<lambda>(key, value). Element key (Some (py_str value)) []) r))"
  by (simp add: build_tree_def add_items_children add_fields_children)



















text \<open>
  C2. The claim: the XML serializer raises its typed error (\<^verbatim>\<open>ValueError\<close>) on every input
  that is neither a mapping nor a sequence of mappings, a sequence with a non-mapping
  element included. On the list \<^verbatim>\<open>[1]\<close> the code raises \<^verbatim>\<open>AttributeError\<close> instead: the
  loop calls \<^verbatim>\<open>item.items()\<close> on the integer.
\<close>

theorem xml_list_with_scalar_raises_attribute_error:
  "build_tree (PList [PScalar (SInt 1)]) = Inl AttributeError"
  by (simp add: build_tree_def)


text \<open>
  The errors of the tree construction: \<^verbatim>\<open>ValueError\<close> exactly when the data is neither a
  list nor a dict, and \<^verbatim>\<open>AttributeError\<close> from inside a list.
\<close>

lemma add_items_error: "add_items root lst = Inl e \<Longrightarrow> e = AttributeError"
  by (induction root lst rule: add_items.induct) (auto simp: Let_def split: pyval.splits)

lemma build_tree_value_error_iff:
  "build_tree data = Inl ValueError \<longleftrightarrow> (\<exists>v. data = PScalar v)"
  by (cases data) (auto simp: build_tree_def dest: add_items_error)


section \<open>Properties of the export prompt\<close>

lemma split_no_sep: "sep \<notin> set s \<Longrightarrow> split sep s = [s]"
  by (induction s) auto

lemma split_not_Nil: "split sep s \<noteq> []"
  by (induction s) (auto split: list.splits)

lemma hd_split: "hd (split sep s) = takeWhile (\<lambda>c. c \<noteq> sep) s"
  by (induction s) (auto split: list.splits simp: split_not_Nil)

lemma split_with_sep: "sep \<in> set s \<Longrightarrow> tl (split sep s) \<noteq> []"
  by (induction s) (auto split: list.splits simp: split_not_Nil)

lemma last_split: "last (split sep s) = rev (takeWhile (\<lambda>c. c \<noteq> sep) (rev s))"
proof (induction s)
  case Nil
  then show ?case by simp
next
  case (Cons c cs)
  show ?case
  proof (cases "sep \<in> set cs")
    case True
    then have "takeWhile (\<lambda>c. c \<noteq> sep) (rev cs @ [c]) = takeWhile (\<lambda>c. c \<noteq> sep) (rev cs)"
      by (simp add: takeWhile_append1)
    moreover have "last (split sep (c # cs)) = last (split sep cs)"
      using split_not_Nil [of sep cs] split_with_sep [OF True] by (cases "split sep cs") auto
    ultimately show ?thesis using Cons.IH by simp
  next
    case False
    then have ns: "\<And>x. x \<in> set (rev cs) \<Longrightarrow> x \<noteq> sep"
      by auto
    have "takeWhile (\<lambda>c. c \<noteq> sep) (rev cs @ [c]) = rev cs @ takeWhile (\<lambda>c. c \<noteq> sep) [c]"
      by (rule takeWhile_append2) (rule ns)
    with False show ?thesis by (simp add: split_no_sep)
  qed
qed

lemma takeWhile_Nil_iff: "(takeWhile (\<lambda>c. c \<noteq> sep) s = []) = (s = [] \<or> take 1 s = [sep])"
  by (cases s) auto

lemma strip_examples:
  "strip '' out.JSON'' = ''out.JSON''" "strip ''a.b.Xml'' = ''a.b.Xml''" "strip ''out.txt'' = ''out.txt''"
  "strip ''out'' = ''out''" "strip ''.json'' = ''.json''" "strip ''x.json'' = ''x.json''"
  by code_simp+

lemma lower_examples:
  "lower ''JSON'' = ''json''" "lower ''Xml'' = ''xml''" "lower ''txt'' = ''txt''" "lower ''json'' = ''json''"
  by code_simp+

lemma of_char_lower_char:
  "(of_char (lower_char c) :: nat) =
     (if (65 \<le> (of_char c :: nat) \<and> (of_char c :: nat) \<le> 90)
         \<or> (192 \<le> (of_char c :: nat) \<and> (of_char c :: nat) \<le> 222 \<and> (of_char c :: nat) \<noteq> 215)
      then of_char c + 32 else of_char c)"
  by (auto simp: lower_char_def Let_def)

lemma lower_char_letter:
  assumes "97 \<le> (of_char l :: nat)" "(of_char l :: nat) \<le> 122"
  shows "lower_char c = l \<longleftrightarrow> (of_char c :: nat) = of_char l \<or> (of_char c :: nat) + 32 = of_char l"
proof -
  have "lower_char c = l \<longleftrightarrow> (of_char (lower_char c) :: nat) = of_char l"
    by simp
  also have "\<dots> \<longleftrightarrow> (of_char c :: nat) = of_char l \<or> (of_char c :: nat) + 32 = of_char l"
    unfolding of_char_lower_char using assms by auto
  finally show ?thesis .
qed

lemma char_by_code: "(of_char c :: nat) = of_char d \<longleftrightarrow> c = d"
  by simp

lemma lower_char_json:
  "lower_char c = CHR ''j'' \<longleftrightarrow> c = CHR ''j'' \<or> c = CHR ''J''"
  "lower_char c = CHR ''s'' \<longleftrightarrow> c = CHR ''s'' \<or> c = CHR ''S''"
  "lower_char c = CHR ''o'' \<longleftrightarrow> c = CHR ''o'' \<or> c = CHR ''O''"
  "lower_char c = CHR ''n'' \<longleftrightarrow> c = CHR ''n'' \<or> c = CHR ''N''"
  "lower_char c = CHR ''x'' \<longleftrightarrow> c = CHR ''x'' \<or> c = CHR ''X''"
  "lower_char c = CHR ''m'' \<longleftrightarrow> c = CHR ''m'' \<or> c = CHR ''M''"
  "lower_char c = CHR ''l'' \<longleftrightarrow> c = CHR ''l'' \<or> c = CHR ''L''"
  by (simp_all add: lower_char_letter)
    (simp_all only: char_by_code [symmetric, of c] of_char_Char, simp_all)

lemma map_eq_4:
  "map f e = [w, x, y, z] \<longleftrightarrow> (\<exists>a b c d. e = [a, b, c, d] \<and> f a = w \<and> f b = x \<and> f c = y \<and> f d = z)"
  by (auto simp: map_eq_Cons_conv)

lemma map_eq_3:
  "map f e = [x, y, z] \<longleftrightarrow> (\<exists>a b c. e = [a, b, c] \<and> f a = x \<and> f b = y \<and> f c = z)"
  by (auto simp: map_eq_Cons_conv)

lemma lower_json_iff:
  "lower e = ''json'' \<longleftrightarrow>
     (\<exists>a b c d. e = [a, b, c, d] \<and> (a = CHR ''j'' \<or> a = CHR ''J'') \<and> (b = CHR ''s'' \<or> b = CHR ''S'')
        \<and> (c = CHR ''o'' \<or> c = CHR ''O'') \<and> (d = CHR ''n'' \<or> d = CHR ''N''))"
  by (simp only: lower_def map_eq_4 lower_char_json)

lemma lower_xml_iff:
  "lower e = ''xml'' \<longleftrightarrow>
     (\<exists>a b c. e = [a, b, c] \<and> (a = CHR ''x'' \<or> a = CHR ''X'') \<and> (b = CHR ''m'' \<or> b = CHR ''M'')
        \<and> (c = CHR ''l'' \<or> c = CHR ''L''))"
  by (simp only: lower_def map_eq_3 lower_char_json)

text \<open>
  C3, as amended. The name is the typed line without its surrounding whitespace. A name
  that is empty, starts with a dot or has no dot is rejected: the prompt comes again and
  no file is written. Any other name is dispatched on the part after its last dot, in
  lower case: \<^verbatim>\<open>xml\<close> goes to the XML serializer, \<^verbatim>\<open>json\<close> to the JSON serializer, and
  anything else is rejected in the same way. The parts that are \<^verbatim>\<open>xml\<close> or \<^verbatim>\<open>json\<close> in lower
  case are those three or four letters, each in either case.
\<close>

theorem filename_dispatch:
  "filename_loop pretty data (line # inputs) fs out =
     (let filename = strip line;
          ext = rev (takeWhile (\<lambda>c. c \<noteq> CHR ''.'') (rev filename))
      in if filename = [] \<or> take 1 filename = ''.'' \<or> CHR ''.'' \<notin> set filename
         then filename_loop pretty data inputs fs
                (out @ [nl @ ''Invalid filename. Please enter a valid filename with a base name and .xml or .json extension.''])
         else if lower ext = ''xml''
         then (case store_data_as_xml pretty data filename fs of
                 Inl e \<Rightarrow> Inl e
               | Inr (fs', printed) \<Rightarrow> Inr (fs', out @ printed))
         else if lower ext = ''json''
         then Inr (write_text fs filename (json_dumps data),
                   out @ [nl @ ''Data successfully written to '' @ filename])
         else filename_loop pretty data inputs fs
                (out @ [nl @ ''Invalid file extension. Please use .xml or .json.'']))
   \<and> (lower e = ''xml'' \<longleftrightarrow>
        (\<exists>a b c. e = [a, b, c] \<and> (a = CHR ''x'' \<or> a = CHR ''X'') \<and> (b = CHR ''m'' \<or> b = CHR ''M'')
           \<and> (c = CHR ''l'' \<or> c = CHR ''L'')))
   \<and> (lower e = ''json'' \<longleftrightarrow>
        (\<exists>a b c d. e = [a, b, c, d] \<and> (a = CHR ''j'' \<or> a = CHR ''J'') \<and> (b = CHR ''s'' \<or> b = CHR ''S'')
           \<and> (c = CHR ''o'' \<or> c = CHR ''O'') \<and> (d = CHR ''n'' \<or> d = CHR ''N'')))"
proof -
  have guard: "(strip line = [] \<or> CHR ''.'' \<notin> set (strip line) \<or> hd (split CHR ''.'' (strip line)) = [])
     = (strip line = [] \<or> take 1 (strip line) = ''.'' \<or> CHR ''.'' \<notin> set (strip line))"
    by (auto simp: hd_split takeWhile_Nil_iff)
  have "filename_loop pretty data (line # inputs) fs out =
     (let filename = strip line;
          ext = rev (takeWhile (\<lambda>c. c \<noteq> CHR ''.'') (rev filename))
      in if filename = [] \<or> take 1 filename = ''.'' \<or> CHR ''.'' \<notin> set filename
         then filename_loop pretty data inputs fs
                (out @ [nl @ ''Invalid filename. Please enter a valid filename with a base name and .xml or .json extension.''])
         else if lower ext = ''xml''
         then (case store_data_as_xml pretty data filename fs of
                 Inl e \<Rightarrow> Inl e
               | Inr (fs', printed) \<Rightarrow> Inr (fs', out @ printed))
         else if lower ext = ''json''
         then Inr (write_text fs filename (json_dumps data),
                   out @ [nl @ ''Data successfully written to '' @ filename])
         else filename_loop pretty data inputs fs
                (out @ [nl @ ''Invalid file extension. Please use .xml or .json.'']))"
    unfolding filename_loop.simps Let_def guard last_split
    by (simp add: store_data_as_json_def Let_def)
  then show ?thesis
    using lower_xml_iff [of e] lower_json_iff [of e] by blast
qed

theorem filename_dispatch_witness:
  "filename_loop tag_printer (PDict []) ['' out.JSON''] Map.empty [] =
     Inr (write_text Map.empty ''out.JSON'' ''{}'', [nl @ ''Data successfully written to out.JSON''])
   \<and> filename_loop tag_printer (PDict []) [''a.b.Xml''] Map.empty [] =
     Inr (write_text Map.empty ''a.b.Xml'' ''data'', [nl @ ''Data successfully written to a.b.Xml''])
   \<and> filename_loop tag_printer (PDict []) [''out.txt'', ''out''] Map.empty [] = Inl EOFError"
  using filename_dispatch [THEN conjunct1, of tag_printer "PDict []" "'' out.JSON''" "[]" Map.empty "[]"]
    filename_dispatch [THEN conjunct1, of tag_printer "PDict []" "''a.b.Xml''" "[]" Map.empty "[]"]
    filename_dispatch [THEN conjunct1, of tag_printer "PDict []" "''out.txt''" "[''out'']" Map.empty "[]"]
    filename_dispatch [THEN conjunct1, of tag_printer "PDict []" "''out''" "[]" Map.empty
       "[nl @ ''Invalid file extension. Please use .xml or .json.'']"]
  by (simp add: strip_examples lower_examples json_dumps_def encode_dict_def
      store_data_as_xml_def build_tree_def tag_printer_def Let_def)

text \<open>
  C3 as stated fails on a name that starts with a dot: the part after the last dot of
  \<^verbatim>\<open>.json\<close> is \<^verbatim>\<open>json\<close>, yet the name is rejected and the prompt comes again.
\<close>

theorem leading_dot_json_rejected:
  "rev (takeWhile (\<lambda>c. c \<noteq> CHR ''.'') (rev (strip ''.json''))) = ''json''
   \<and> filename_loop tag_printer (PDict []) [''.json'', ''x.json''] Map.empty [] =
     Inr (write_text Map.empty ''x.json'' ''{}'',
          [nl @ ''Invalid filename. Please enter a valid filename with a base name and .xml or .json extension.'',
           nl @ ''Data successfully written to x.json''])"
  by (simp add: strip_examples lower_examples json_dumps_def encode_dict_def
      store_data_as_json_def Let_def)

lemma write_text_twice: "write_text (write_text fs filename content) filename content = write_text fs filename content"
  by (simp add: write_text_def)

lemma store_data_as_xml_again:
  "store_data_as_xml pretty data filename fs = Inr (fs1, printed) \<Longrightarrow>
   store_data_as_xml pretty data filename fs1 = Inr (fs1, printed)"
  by (auto simp: store_data_as_xml_def write_text_twice split: sum.splits)

lemma filename_loop_again:
  "filename_loop pretty data inputs fs out = Inr (fs1, out1) \<Longrightarrow>
   filename_loop pretty data inputs fs1 out = Inr (fs1, out1)"
proof (induction pretty data inputs fs out rule: filename_loop.induct)
  case (1 pretty data fs out)
  then show ?case by simp
next
  case (2 pretty data line inputs fs out)
  show ?case
  proof (cases "strip line = [] \<or> CHR ''.'' \<notin> set (strip line) \<or> hd (split CHR ''.'' (strip line)) = []")
    case True
    with 2 show ?thesis by (simp add: Let_def)
  next
    case False
    show ?thesis
    proof (cases "lower (last (split CHR ''.'' (strip line))) = ''xml''")
      case True
      with False "2.prems" show ?thesis
        by (auto simp: Let_def split: sum.splits dest: store_data_as_xml_again)
    next
      case nx: False
      show ?thesis
      proof (cases "lower (last (split CHR ''.'' (strip line))) = ''json''")
        case True
        with False nx "2.prems" show ?thesis
          by (auto simp: Let_def store_data_as_json_def write_text_twice)
      next
        case nj: False
        with False nx 2 show ?thesis by (simp add: Let_def)
      qed
    qed
  qed
qed

text \<open>
  C5. Exporting the same data to the same file name a second time leaves the file system
  as the first export left it, so the bytes of the file are the same both times: they are
  the UTF-8 encoding of \<^verbatim>\<open>json.dumps\<close> of the data, or of the text the XML printer gives
  for the tree of the data. This holds for each serializer and for the prompt with the
  same typed lines.
\<close>

theorem export_twice_same_bytes:
  "(store_data_as_json data filename fs = Inr (fs1, printed) \<longrightarrow>
      store_data_as_json data filename fs1 = Inr (fs1, printed)
      \<and> fs1 filename = Some (utf8_encode (json_dumps data)))
   \<and> (store_data_as_xml pretty data filename fs = Inr (fs1, printed) \<longrightarrow>
      store_data_as_xml pretty data filename fs1 = Inr (fs1, printed)
      \<and> (\<exists>root pretty_xml. build_tree data = Inr root \<and> pretty root = Inr pretty_xml
            \<and> fs1 filename = Some (utf8_encode pretty_xml)))
   \<and> (filename_loop pretty data inputs fs out = Inr (fs1, out1) \<longrightarrow>
      filename_loop pretty data inputs fs1 out = Inr (fs1, out1))"
proof (intro conjI impI)
  assume "store_data_as_json data filename fs = Inr (fs1, printed)"
  then show "store_data_as_json data filename fs1 = Inr (fs1, printed)"
    and "fs1 filename = Some (utf8_encode (json_dumps data))"
    by (auto simp: store_data_as_json_def write_text_def)
next
  assume x: "store_data_as_xml pretty data filename fs = Inr (fs1, printed)"
  then show "store_data_as_xml pretty data filename fs1 = Inr (fs1, printed)"
    by (rule store_data_as_xml_again)
  from x show "\<exists>root pretty_xml. build_tree data = Inr root \<and> pretty root = Inr pretty_xml
            \<and> fs1 filename = Some (utf8_encode pretty_xml)"
    by (auto simp: store_data_as_xml_def write_text_def split: sum.splits)
next
  assume "filename_loop pretty data inputs fs out = Inr (fs1, out1)"
  then show "filename_loop pretty data inputs fs1 out = Inr (fs1, out1)"
    by (rule filename_loop_again)
qed

theorem export_twice_same_bytes_witness:
  "store_data_as_json address_data ''out.json'' Map.empty =
     Inr (write_text Map.empty ''out.json'' (json_dumps address_data),
          [nl @ ''Data successfully written to out.json''])
   \<and> store_data_as_json address_data ''out.json''
       (write_text Map.empty ''out.json'' (json_dumps address_data)) =
     Inr (write_text Map.empty ''out.json'' (json_dumps address_data),
          [nl @ ''Data successfully written to out.json''])
   \<and> store_data_as_xml tag_printer address_data ''out.xml'' Map.empty =
     Inr (write_text Map.empty ''out.xml'' ''data'', [nl @ ''Data successfully written to out.xml''])
   \<and> store_data_as_xml tag_printer address_data ''out.xml'' (write_text Map.empty ''out.xml'' ''data'') =
     Inr (write_text Map.empty ''out.xml'' ''data'', [nl @ ''Data successfully written to out.xml''])"
proof -
  have j: "store_data_as_json address_data ''out.json'' Map.empty =
     Inr (write_text Map.empty ''out.json'' (json_dumps address_data),
          [nl @ ''Data successfully written to out.json''])"
    by (simp add: store_data_as_json_def)
  have x: "store_data_as_xml tag_printer address_data ''out.xml'' Map.empty =
     Inr (write_text Map.empty ''out.xml'' ''data'', [nl @ ''Data successfully written to out.xml''])"
    by (simp add: store_data_as_xml_def build_tree_def address_data_def tag_printer_def
        add_fields_children)
  from j x
    export_twice_same_bytes [of address_data "''out.json''" Map.empty
      "write_text Map.empty ''out.json'' (json_dumps address_data)"
      "[nl @ ''Data successfully written to out.json'']"]
    export_twice_same_bytes [of address_data "''out.xml''" Map.empty
      "write_text Map.empty ''out.xml'' ''data''"
      "[nl @ ''Data successfully written to out.xml'']" tag_printer]
  show ?thesis by simp
qed

section \<open>Properties of the JSON serializer\<close>

subsection \<open>Files are read back as they were written\<close>

lemma of_char_lt_256: "(of_char c :: nat) < 256"
proof -
  have "(of_char c :: nat) mod 256 < 256" by (rule mod_less_divisor) simp
  then show ?thesis by (simp only: of_char_mod_256)
qed

lemma unat_byte: "n < 256 \<Longrightarrow> unat (of_nat n :: byte) = n"
  by (simp add: unat_of_nat)

lemma two_byte_lead:
  fixes m :: nat
  assumes "m < 256" "\<not> m < 128"
  shows "192 + m div 64 < 256" "192 + m div 64 = 194 \<or> 192 + m div 64 = 195"
proof -
  have "m div 64 < 4" using assms(1) by (simp add: div_less_iff_less_mult)
  moreover have "2 \<le> m div 64" using assms(2) by (simp add: less_eq_div_iff_mult_less_eq)
  ultimately show "192 + m div 64 < 256" "192 + m div 64 = 194 \<or> 192 + m div 64 = 195"
    by auto
qed

lemma utf8_decode_char:
  "utf8_decode (utf8_char c @ bs) = map_option ((#) c) (utf8_decode bs)"
proof -
  let ?n = "of_char c :: nat"
  have n: "?n < 256" by (rule of_char_lt_256)
  show ?thesis
  proof (cases "?n < 128")
    case True
    then show ?thesis by (simp add: utf8_char_def unat_byte)
  next
    case False
    have hi: "192 + ?n div 64 < 256" "192 + ?n div 64 = 194 \<or> 192 + ?n div 64 = 195"
      using two_byte_lead [OF n False] by blast+
    have lo: "128 + ?n mod 64 < 256" "128 \<le> 128 + ?n mod 64" "128 + ?n mod 64 < 192" by simp_all
    have recombine: "(192 + ?n div 64 - 192) * 64 + (128 + ?n mod 64 - 128) = ?n" by simp
    from False hi(2) show ?thesis
      unfolding utf8_char_def Let_def
      by (simp only: if_False append_Cons append_Nil utf8_decode.simps unat_byte [OF hi(1)]
          unat_byte [OF lo(1)] list.case recombine lo) auto
  qed
qed

lemma utf8_round_trip: "utf8_decode (utf8_encode s) = Some s"
  by (induction s) (simp_all add: utf8_encode_def utf8_decode_char)

lemma read_write_text: "read_text (write_text fs filename content) filename = Some content"
  by (simp add: read_text_def write_text_def utf8_round_trip)

subsection \<open>Integers\<close>

declare str_nat.simps [simp del]

lemma below_10_cases:
  "d < 10 \<Longrightarrow> d = 0 \<or> d = 1 \<or> d = 2 \<or> d = 3 \<or> d = 4 \<or> d = 5 \<or> d = 6 \<or> d = 7 \<or> d = 8 \<or> d = (9::nat)"
  by arith

lemma of_char_digit_char: "d < 10 \<Longrightarrow> (of_char (digit_char d) :: nat) = 48 + d"
  by (drule below_10_cases) (auto simp: digit_char_def)

lemma is_digit_digit_char: "d < 10 \<Longrightarrow> is_digit (digit_char d)"
  by (simp add: is_digit_def of_char_digit_char)

lemma digit_char_zero_iff: "d < 10 \<Longrightarrow> digit_char d = CHR ''0'' \<longleftrightarrow> d = 0"
  by (drule below_10_cases) (auto simp: digit_char_def)

lemma str_nat_digits: "c \<in> set (str_nat n) \<Longrightarrow> is_digit c"
proof (induction n rule: str_nat.induct)
  case (1 n)
  then show ?case
    by (subst (asm) str_nat.simps) (auto simp: is_digit_digit_char split: if_splits)
qed

lemma int_of_digits_snoc: "int_of_digits (ds @ [c]) = 10 * int_of_digits ds + (of_char c - 48)"
  by (simp add: int_of_digits_def)

lemma int_of_digits_str_nat: "int_of_digits (str_nat n) = n"
proof (induction n rule: str_nat.induct)
  case (1 n)
  show ?case
  proof (cases "n < 10")
    case True
    then show ?thesis
      by (subst str_nat.simps) (simp add: int_of_digits_def of_char_digit_char)
  next
    case False
    with 1 show ?thesis
      by (subst str_nat.simps) (simp add: int_of_digits_snoc of_char_digit_char)
  qed
qed

lemma str_nat_shape:
  "\<exists>c cs. str_nat n = c # cs \<and> is_digit c \<and> (c = CHR ''0'' \<longrightarrow> n = 0 \<and> cs = [])"
proof (induction n rule: str_nat.induct)
  case (1 n)
  show ?case
  proof (cases "n < 10")
    case True
    then show ?thesis
      by (subst str_nat.simps) (simp add: is_digit_digit_char digit_char_zero_iff)
  next
    case False
    then have "n div 10 \<noteq> 0" by simp
    with 1 False show ?thesis
      by (subst str_nat.simps) auto
  qed
qed

lemma match_integer_str_nat:
  assumes "rest = [] \<or> \<not> is_digit (hd rest)"
  shows "match_integer (str_nat n @ rest) = Some (str_nat n, rest)"
proof -
  obtain c cs where s: "str_nat n = c # cs" "is_digit c" "c = CHR ''0'' \<longrightarrow> n = 0 \<and> cs = []"
    using str_nat_shape by blast
  have cs: "\<And>x. x \<in> set cs \<Longrightarrow> is_digit x"
    using str_nat_digits [of _ n] s(1) by simp
  have tw: "takeWhile is_digit (cs @ rest) = cs" "dropWhile is_digit (cs @ rest) = rest"
    using assms cs by (cases rest; simp add: takeWhile_append2 dropWhile_append2)+
  show ?thesis
    using s tw by (auto simp: match_integer_def)
qed

text \<open>What may follow a value in the output of the serializer: nothing, a comma or a newline.\<close>

lemma value_end_cases:
  assumes "take 1 rest \<in> {[], '','', [CHR 0x0A]}"
  obtains "rest = []" | r where "rest = CHR '','' # r" | r where "rest = CHR 0x0A # r"
  using assms by (cases rest) auto

lemma value_end_not_digit:
  "take 1 rest \<in> {[], '','', [CHR 0x0A]} \<Longrightarrow> rest = [] \<or> \<not> is_digit (hd rest)"
  by (erule value_end_cases) (auto simp: is_digit_def)

lemma value_end_not_float:
  "take 1 rest \<in> {[], '','', [CHR 0x0A]} \<Longrightarrow> \<not> has_frac_or_exp rest"
proof (erule value_end_cases)
  fix r assume "rest = CHR '','' # r"
  then show ?thesis by (cases r; cases "tl r"; auto)
next
  fix r assume "rest = CHR 0x0A # r"
  then show ?thesis by (cases r; cases "tl r"; auto)
qed simp

lemma scan_number_str_int:
  assumes "take 1 rest \<in> {[], '','', [CHR 0x0A]}"
  shows "scan_number (str_int i @ rest) = Some (SInt i, rest)"
proof -
  note m = match_integer_str_nat [OF value_end_not_digit [OF assms]]
  note f = value_end_not_float [OF assms]
  show ?thesis
  proof (cases "i < 0")
    case True
    then show ?thesis
      by (simp add: str_int_def scan_number_def m f int_of_digits_str_nat)
  next
    case False
    obtain c cs where s: "str_nat (nat i) = c # cs" "is_digit c"
      using str_nat_shape by blast
    then have "c \<noteq> CHR ''-''" by (auto simp: is_digit_def)
    moreover have "int (int_of_digits (c # cs)) = i"
      using False int_of_digits_str_nat [of "nat i"] s(1) by simp
    ultimately show ?thesis
      using False s(1) m [of "nat i"] by (simp add: str_int_def scan_number_def f)
  qed
qed

subsection \<open>Strings and scalars\<close>

lemma below_16_cases:
  "d < 16 \<Longrightarrow> d = 0 \<or> d = 1 \<or> d = 2 \<or> d = 3 \<or> d = 4 \<or> d = 5 \<or> d = 6 \<or> d = 7 \<or> d = 8 \<or> d = 9
     \<or> d = 10 \<or> d = 11 \<or> d = 12 \<or> d = 13 \<or> d = 14 \<or> d = (15::nat)"
  by arith

lemma hex_value_hex_digit: "d < 16 \<Longrightarrow> hex_value (hex_digit d) = Some d"
  by (drule below_16_cases) (auto simp: hex_digit_def hex_value_def)

lemma decode_uXXXX_code_point:
  assumes "n < 256"
  shows "decode_uXXXX (hex_digit (n div 4096)) (hex_digit (n div 256 mod 16))
           (hex_digit (n div 16 mod 16)) (hex_digit (n mod 16)) = Some n"
proof -
  have z: "n div 4096 = 0" "n div 256 mod 16 = 0" using assms by simp_all
  have "n div 16 < 16" using assms by (simp add: div_less_iff_less_mult)
  then have m: "n div 16 mod 16 = n div 16" by simp
  have h: "hex_value (hex_digit 0) = Some 0" "hex_value (hex_digit (n div 16)) = Some (n div 16)"
    "hex_value (hex_digit (n mod 16)) = Some (n mod 16)"
    using \<open>n div 16 < 16\<close> by (simp_all add: hex_value_hex_digit)
  show ?thesis
    by (simp add: decode_uXXXX_def z m h)
qed

lemma scanstring_escape_char:
  "scanstring (escape_char c @ r) = map_option (\<lambda>(chunks, end). (c # chunks, end)) (scanstring r)"
proof -
  consider (short) "c \<in> {CHR 0x22, CHR 0x5C, CHR 0x0A, CHR 0x0D, CHR 0x09, CHR 0x08, CHR 0x0C}"
    | (literal) "c \<notin> {CHR 0x22, CHR 0x5C, CHR 0x0A, CHR 0x0D, CHR 0x09, CHR 0x08, CHR 0x0C}"
        "0x20 \<le> (of_char c :: nat) \<and> (of_char c :: nat) \<le> 0x7E"
    | (unicode) "c \<notin> {CHR 0x22, CHR 0x5C, CHR 0x0A, CHR 0x0D, CHR 0x09, CHR 0x08, CHR 0x0C}"
        "\<not> (0x20 \<le> (of_char c :: nat) \<and> (of_char c :: nat) \<le> 0x7E)"
    by blast
  then show ?thesis
  proof cases
    case short
    then show ?thesis
      by (auto simp: escape_char_def backslash_def)
  next
    case literal
    then show ?thesis
      by (auto simp: escape_char_def)
  next
    case unicode
    have "escape_char c = [CHR 0x5C, CHR ''u'', hex_digit (of_char c div 4096),
        hex_digit (of_char c div 256 mod 16), hex_digit (of_char c div 16 mod 16),
        hex_digit (of_char c mod 16)]"
      using unicode by (simp add: escape_char_def Let_def)
    moreover have "decode_uXXXX (hex_digit (of_char c div 4096)) (hex_digit 0)
        (hex_digit (of_char c div 16 mod 16)) (hex_digit (of_char c mod 16)) = Some (of_char c)"
      using decode_uXXXX_code_point [OF of_char_lt_256, of c] by simp
    ultimately show ?thesis
      by (simp add: of_char_lt_256)
  qed
qed

lemma scanstring_encoded:
  "scanstring (concat (map escape_char s) @ CHR 0x22 # rest) = Some (s, rest)"
  by (induction s) (simp_all add: scanstring_escape_char)

lemma scan_scalar_encoded:
  assumes "take 1 rest \<in> {[], '','', [CHR 0x0A]}"
  shows "scan_scalar (encode_scalar v @ rest) = Some (v, rest)"
proof (cases v)
  case SNone
  then show ?thesis by (simp add: scan_scalar_def)
next
  case (SInt i)
  have "\<exists>c cs. str_int i = c # cs \<and> (c = CHR ''-'' \<or> is_digit c)"
    using str_nat_shape [of "nat i"] by (cases "i < 0") (auto simp: str_int_def)
  then obtain c cs where s: "str_int i = c # cs" "c = CHR ''-'' \<or> is_digit c"
    by blast
  then have "c \<noteq> CHR 0x22" "c \<noteq> CHR ''n''" by (auto simp: is_digit_def)
  with s(1) scan_number_str_int [OF assms, of i] SInt show ?thesis
    by (simp add: scan_scalar_def)
next
  case (SStr str)
  then show ?thesis
    by (simp add: scan_scalar_def encode_string_def scanstring_encoded)
qed

subsection \<open>Records\<close>

lemma join_Cons: "join sep (x # xs) = x @ concat (map (\<lambda>y. sep @ y) xs)"
  by (induction xs arbitrary: x) simp_all

lemma skip_ws_newline_indent: "skip_ws (newline_indent level @ r) = skip_ws r"
  by (simp add: skip_ws_def newline_indent_def is_ws_def dropWhile_append)

lemma skip_ws_no_ws: "\<not> is_ws c \<Longrightarrow> skip_ws (c # r) = c # r"
  by (simp add: skip_ws_def)

lemma encode_scalar_first:
  "\<exists>c cs. encode_scalar v = c # cs \<and> \<not> is_ws c"
proof (cases v)
  case SNone
  then show ?thesis by (simp add: is_ws_def)
next
  case (SInt i)
  have "\<exists>c cs. str_int i = c # cs \<and> (c = CHR ''-'' \<or> is_digit c)"
    using str_nat_shape [of "nat i"] by (cases "i < 0") (auto simp: str_int_def)
  with SInt show ?thesis by (auto simp: is_ws_def is_digit_def)
next
  case (SStr s)
  then show ?thesis by (simp add: encode_string_def is_ws_def)
qed

lemma skip_ws_before_scalar: "skip_ws (CHR '' '' # encode_scalar v @ r) = encode_scalar v @ r"
proof -
  obtain c cs where "encode_scalar v = c # cs" "\<not> is_ws c"
    using encode_scalar_first by blast
  then show ?thesis by (simp add: skip_ws_def is_ws_def)
qed

lemma encode_item_unfold:
  "encode_item (k, v) = CHR 0x22 # concat (map escape_char k) @ CHR 0x22 # CHR '':'' # CHR '' '' # encode_scalar v"
  by (simp add: encode_item_def encode_string_def)

lemma parse_pairs_encoded:
  "length kvs \<le> n \<Longrightarrow>
   parse_pairs (Suc n)
     (concat (map escape_char k) @ CHR 0x22 # CHR '':'' # CHR '' '' # encode_scalar v
      @ concat (map (\<lambda>y. ('','' @ newline_indent level') @ y) (map encode_item kvs))
      @ newline_indent level @ CHR ''}'' # rest)
   = Some ((k, v) # kvs, rest)"
proof (induction kvs arbitrary: k v n)
  case Nil
  have "scan_scalar (encode_scalar v @ newline_indent level @ CHR ''}'' # rest)
      = Some (v, newline_indent level @ CHR ''}'' # rest)"
    by (rule scan_scalar_encoded) (simp add: newline_indent_def)
  then show ?case
    by (simp add: scanstring_encoded skip_ws_no_ws is_ws_def skip_ws_before_scalar
        skip_ws_newline_indent)
next
  case (Cons kv kvs)
  obtain k' v' where kv: "kv = (k', v')" by (cases kv)
  from Cons.prems obtain m where n: "n = Suc m" "length kvs \<le> m"
    by (cases n) auto
  let ?tail = "CHR '','' # newline_indent level' @ encode_item (k', v')
      @ concat (map (\<lambda>y. ('','' @ newline_indent level') @ y) (map encode_item kvs))
      @ newline_indent level @ CHR ''}'' # rest"
  have "scan_scalar (encode_scalar v @ ?tail) = Some (v, ?tail)"
    by (rule scan_scalar_encoded) simp
  then show ?case
    using Cons.IH [OF n(2), of k' v']
    by (simp add: kv n(1) scanstring_encoded skip_ws_no_ws is_ws_def skip_ws_before_scalar
        skip_ws_newline_indent encode_item_unfold)
qed

lemma dict_setitem_new: "k \<notin> fst ` set d \<Longrightarrow> dict_setitem d k v = d @ [(k, v)]"
  by (induction d) auto

lemma dict_of_pairs_acc:
  "distinct (map fst (acc @ pairs)) \<Longrightarrow>
   foldl (\<lambda>d (k, v). dict_setitem d k v) acc pairs = acc @ pairs"
proof (induction pairs arbitrary: acc)
  case Nil
  then show ?case by simp
next
  case (Cons kv pairs)
  obtain k v where kv: "kv = (k, v)" by (cases kv)
  from Cons.prems have new: "k \<notin> fst ` set acc" by (auto simp: kv)
  from Cons.prems have "distinct (map fst ((acc @ [(k, v)]) @ pairs))" by (simp add: kv)
  from Cons.IH [OF this] show ?case by (simp add: kv dict_setitem_new [OF new])
qed

lemma dict_of_pairs_distinct: "distinct (map fst pairs) \<Longrightarrow> dict_of_pairs pairs = pairs"
  using dict_of_pairs_acc [of "[]" pairs] by (simp add: dict_of_pairs_def)

lemma scan_once_encode_dict:
  assumes "distinct (map fst dct)" "length dct \<le> n"
  shows "scan_once (Suc n) (encode_dict level dct @ rest) = Some (PDict dct, rest)"
proof (cases dct)
  case Nil
  then show ?thesis by (simp add: encode_dict_def skip_ws_no_ws is_ws_def)
next
  case (Cons kv kvs)
  obtain k v where kv: "kv = (k, v)" by (cases kv)
  from assms(2) Cons obtain m where n: "n = Suc m" "length kvs \<le> m"
    by (cases n) auto
  show ?thesis
    using parse_pairs_encoded [OF n(2), of k v "Suc level" level rest] assms(1)
    by (simp add: Cons kv n(1) encode_dict_def join_Cons skip_ws_newline_indent
        encode_item_unfold skip_ws_no_ws is_ws_def dict_of_pairs_distinct)
qed

lemma length_concat_items: "length kvs \<le> length (concat (map (\<lambda>y. sep @ encode_item y) kvs))"
  by (induction kvs) (simp_all add: encode_item_def encode_string_def)

lemma length_encode_dict: "length dct < length (encode_dict level dct)"
proof (cases dct)
  case Nil
  then show ?thesis by (simp add: encode_dict_def)
next
  case (Cons kv kvs)
  then show ?thesis
    using length_concat_items [of kvs "'','' @ newline_indent (Suc level)"]
    by (simp add: encode_dict_def join_Cons comp_def)
qed

lemma json_loads_dumps_record:
  assumes "distinct (map fst r)"
  shows "json_loads (json_dumps (PDict r)) = Some (PDict r)"
proof -
  have first: "skip_ws (encode_dict 0 r) = encode_dict 0 r"
    by (cases r) (simp_all add: encode_dict_def skip_ws_no_ws is_ws_def)
  obtain n where n: "length (encode_dict 0 r) = Suc n" "length r \<le> n"
    using length_encode_dict [of r 0] by (cases "length (encode_dict 0 r)") auto
  have "scan_once (length (encode_dict 0 r)) (encode_dict 0 r) = Some (PDict r, [])"
    using scan_once_encode_dict [OF assms n(2), of 0 "[]"] by (simp only: n(1) append_Nil2)
  then show ?thesis
    unfolding json_loads_def json_dumps_def iterencode.simps first
    by (simp add: skip_ws_def)
qed

lemma ascii_hex_digit: "d < 16 \<Longrightarrow> (of_char (hex_digit d) :: nat) < 128"
  by (drule below_16_cases) (auto simp: hex_digit_def)

lemma ascii_escape_char: "x \<in> set (escape_char c) \<Longrightarrow> (of_char x :: nat) < 128"
proof -
  have "(of_char c :: nat) < 4096"
    using of_char_lt_256 [of c] by linarith
  then have "(of_char c :: nat) div 4096 = 0"
    by (rule div_less)
  then have b: "(of_char c :: nat) div 4096 < 16" "(of_char c :: nat) div 256 mod 16 < 16"
    "(of_char c :: nat) div 16 mod 16 < 16" "(of_char c :: nat) mod 16 < 16"
    by simp_all
  assume "x \<in> set (escape_char c)"
  then show ?thesis
    using ascii_hex_digit [OF b(1)] ascii_hex_digit [OF b(2)] ascii_hex_digit [OF b(3)]
      ascii_hex_digit [OF b(4)]
    by (auto simp: escape_char_def Let_def split: if_splits)
qed

lemma ascii_encode_scalar: "x \<in> set (encode_scalar v) \<Longrightarrow> (of_char x :: nat) < 128"
proof (cases v)
  case SNone
  assume "x \<in> set (encode_scalar v)"
  with SNone show ?thesis by auto
next
  case (SInt i)
  assume "x \<in> set (encode_scalar v)"
  with SInt have "x = CHR ''-'' \<or> is_digit x"
    by (auto simp: str_int_def dest: str_nat_digits split: if_splits)
  then show ?thesis by (auto simp: is_digit_def)
next
  case (SStr s)
  assume "x \<in> set (encode_scalar v)"
  with SStr show ?thesis by (auto simp: encode_string_def dest: ascii_escape_char)
qed

lemma ascii_encode_item: "x \<in> set (encode_item kv) \<Longrightarrow> (of_char x :: nat) < 128"
  by (auto simp: encode_item_def encode_string_def dest: ascii_escape_char ascii_encode_scalar)

lemma ascii_newline_indent: "x \<in> set (newline_indent level) \<Longrightarrow> (of_char x :: nat) < 128"
  by (auto simp: newline_indent_def)

lemma ascii_encode_dict: "x \<in> set (encode_dict level dct) \<Longrightarrow> (of_char x :: nat) < 128"
  by (cases dct)
    (auto simp: encode_dict_def join_Cons dest: ascii_encode_item ascii_newline_indent
       split: if_splits)

lemma utf8_encode_ascii:
  "(\<And>x. x \<in> set s \<Longrightarrow> (of_char x :: nat) < 128) \<Longrightarrow>
   utf8_encode s = map (\<lambda>c. of_nat (of_char c)) s"
  by (induction s) (simp_all add: utf8_encode_def utf8_char_def)

lemma replicate_4: "replicate 4 x = [x, x, x, x]"
  by (simp add: numeral_eq_Suc)

lemma json_dumps_record_lines:
  "json_dumps (PDict r) =
     (if r = [] then ''{}''
      else ''{'' @ join '','' (map (\<lambda>kv. CHR 0x0A # ''    '' @ encode_item kv) r) @ CHR 0x0A # ''}'')"
  by (cases r)
    (simp_all add: json_dumps_def encode_dict_def join_Cons newline_indent_def comp_def replicate_4)

text \<open>
  C6. A Record (a dict, so its keys are distinct) exported with \<^verbatim>\<open>store_data_as_json\<close> is
  written without error; the file read back as UTF-8 and parsed by \<^verbatim>\<open>json.loads\<close> gives
  the Record itself, fields in the same order. The text holds one member per line, each
  after four spaces, and it is ASCII, so that its UTF-8 encoding has one byte per
  character. So it is for the address Record written to \<^verbatim>\<open>out.json\<close>.
\<close>

theorem json_record_round_trip:
  "distinct (map fst r) \<longrightarrow>
     (case store_data_as_json (PDict r) filename fs of
        Inl e \<Rightarrow> False
      | Inr (fs', printed) \<Rightarrow>
          (case read_text fs' filename of
             None \<Rightarrow> False
           | Some content \<Rightarrow>
               json_loads content = Some (PDict r)
               \<and> content =
                   (if r = [] then ''{}''
                    else ''{'' @ join '','' (map (\<lambda>kv. CHR 0x0A # ''    '' @ encode_item kv) r)
                         @ CHR 0x0A # ''}'')
               \<and> fs' filename = Some (map (\<lambda>c. of_nat (of_char c)) content)))"
proof
  assume d: "distinct (map fst r)"
  have bytes: "utf8_encode (json_dumps (PDict r)) = map (\<lambda>c. of_nat (of_char c)) (json_dumps (PDict r))"
    by (rule utf8_encode_ascii) (simp add: json_dumps_def ascii_encode_dict)
  have w: "write_text fs filename (json_dumps (PDict r)) filename = Some (utf8_encode (json_dumps (PDict r)))"
    by (simp add: write_text_def)
  show "case store_data_as_json (PDict r) filename fs of
        Inl e \<Rightarrow> False
      | Inr (fs', printed) \<Rightarrow>
          (case read_text fs' filename of
             None \<Rightarrow> False
           | Some content \<Rightarrow>
               json_loads content = Some (PDict r)
               \<and> content =
                   (if r = [] then ''{}''
                    else ''{'' @ join '','' (map (\<lambda>kv. CHR 0x0A # ''    '' @ encode_item kv) r)
                         @ CHR 0x0A # ''}'')
               \<and> fs' filename = Some (map (\<lambda>c. of_nat (of_char c)) content))"
    unfolding store_data_as_json_def Let_def
    by (simp only: sum.case prod.case read_write_text option.case json_loads_dumps_record [OF d]
        json_dumps_record_lines [symmetric] w bytes simp_thms)
qed


theorem json_record_round_trip_witness:
  \<open>distinct (map fst [(''street'', SStr ''12 Oak Ave''), (''city'', SStr ''Springfield'')])
   \<and> store_data_as_json address_data ''out.json'' Map.empty =
       Inr (write_text Map.empty ''out.json'' (json_dumps address_data),
            [nl @ ''Data successfully written to out.json''])
   \<and> read_text (write_text Map.empty ''out.json'' (json_dumps address_data)) ''out.json'' =
       Some (json_dumps address_data)
   \<and> json_loads (json_dumps address_data) = Some address_data
   \<and> json_dumps address_data =
       ''{'' @ [CHR 0x0A] @ ''    "street": "12 Oak Ave",'' @ [CHR 0x0A]
       @ ''    "city": "Springfield"'' @ [CHR 0x0A] @ ''}''\<close>
  using json_record_round_trip
    [of "[(''street'', SStr ''12 Oak Ave''), (''city'', SStr ''Springfield'')]" "''out.json''" Map.empty]
  by (simp add: address_data_def store_data_as_json_def read_write_text json_dumps_def
      encode_dict_def encode_item_def encode_string_def escape_char_def newline_indent_def
      replicate_4)


text \<open>
  C4, as amended. Serializing a Record to the text-tree (JSON) format and parsing the
  text back gives a mapping with the same field names in the same order and
  string-equal values; moreover the values themselves are equal, so that a numeric field
  comes back as a number.
\<close>

theorem json_keeps_names_order_and_types:
  "distinct (map fst r) \<longrightarrow>
     (case json_loads (json_dumps (PDict r)) of
        Some (PDict r') \<Rightarrow>
          map fst r' = map fst r
          \<and> map (\<lambda>kv. py_str (snd kv)) r' = map (\<lambda>kv. py_str (snd kv)) r
          \<and> map snd r' = map snd r
      | _ \<Rightarrow> False)"
  by (simp add: json_loads_dumps_record)


theorem json_keeps_names_order_and_types_witness:
  "distinct (map fst [(''first_name'', SStr ''Ann''), (''mark'', SInt 30), (''email'', SNone)])
   \<and> json_loads (json_dumps (PDict [(''first_name'', SStr ''Ann''), (''mark'', SInt 30), (''email'', SNone)]))
      = Some (PDict [(''first_name'', SStr ''Ann''), (''mark'', SInt 30), (''email'', SNone)])"
  using json_keeps_names_order_and_types
    [of "[(''first_name'', SStr ''Ann''), (''mark'', SInt 30), (''email'', SNone)]"]
  by (auto split: option.splits pyval.splits)

text \<open>
  C4 as stated says that numeric fields come back as strings. The mark 30 comes back
  as the integer 30, not as the string \<^verbatim>\<open>30\<close>.
\<close>

theorem json_number_comes_back_a_number:
  "json_loads (json_dumps (PDict [(''mark'', SInt 30)])) = Some (PDict [(''mark'', SInt 30)])
   \<and> json_loads (json_dumps (PDict [(''mark'', SInt 30)])) \<noteq> Some (PDict [(''mark'', SStr ''30'')])"
  by (simp add: json_loads_dumps_record)

subsection \<open>Result Sets\<close>

text \<open>
  The same holds for every well-formed value, a list of Records in particular: what
  \<^verbatim>\<open>store_data_as_json\<close> writes is read back by \<^verbatim>\<open>json.loads\<close> as the value itself.
\<close>

lemma iterencode_first:
  "\<exists>c cs. iterencode level v = c # cs \<and> \<not> is_ws c \<and> c \<noteq> CHR '']''"
proof (cases v)
  case (PScalar x)
  show ?thesis
  proof (cases x)
    case SNone
    with PScalar show ?thesis by (simp add: is_ws_def)
  next
    case (SInt i)
    have "\<exists>c cs. str_int i = c # cs \<and> (c = CHR ''-'' \<or> is_digit c)"
      using str_nat_shape [of "nat i"] by (cases "i < 0") (auto simp: str_int_def)
    with PScalar SInt show ?thesis by (auto simp: is_ws_def is_digit_def)
  next
    case (SStr s)
    with PScalar show ?thesis by (simp add: encode_string_def is_ws_def)
  qed
next
  case (PDict dct)
  then show ?thesis by (cases dct) (simp_all add: encode_dict_def is_ws_def)
next
  case (PList lst)
  then show ?thesis by (cases lst) (simp_all add: is_ws_def)
qed

lemma skip_ws_iterencode: "skip_ws (iterencode level v @ r) = iterencode level v @ r"
proof -
  obtain c cs where "iterencode level v = c # cs" "\<not> is_ws c"
    using iterencode_first by blast
  then show ?thesis by (simp add: skip_ws_def)
qed

lemma encode_scalar_not_bracket:
  "\<exists>c cs. encode_scalar v = c # cs \<and> c \<noteq> CHR ''{'' \<and> c \<noteq> CHR ''[''"
proof (cases v)
  case SNone
  then show ?thesis by simp
next
  case (SInt i)
  have "\<exists>c cs. str_int i = c # cs \<and> (c = CHR ''-'' \<or> is_digit c)"
    using str_nat_shape [of "nat i"] by (cases "i < 0") (auto simp: str_int_def)
  with SInt show ?thesis by (auto simp: is_digit_def)
next
  case (SStr str)
  then show ?thesis by (simp add: encode_string_def)
qed

lemma scan_once_scalar:
  assumes "take 1 rest \<in> {[], '','', [CHR 0x0A]}"
  shows "scan_once (Suc n) (encode_scalar v @ rest) = Some (PScalar v, rest)"
proof -
  obtain c cs where s: "encode_scalar v = c # cs" "c \<noteq> CHR ''{''" "c \<noteq> CHR ''[''"
    using encode_scalar_not_bracket by blast
  have "scan_scalar (c # cs @ rest) = Some (v, rest)"
    using scan_scalar_encoded [OF assms, of v] s(1) by simp
  with s show ?thesis by simp
qed

lemma parse_values_encoded:
  assumes elems: "\<And>x n rest. x \<in> set (y # ys) \<Longrightarrow> depth_bound x \<le> n \<Longrightarrow>
             take 1 rest \<in> {[], '','', [CHR 0x0A]} \<Longrightarrow>
             scan_once n (iterencode level' x @ rest) = Some (x, rest)"
    and fuel: "sum_list (map (\<lambda>x. Suc (depth_bound x)) (y # ys)) \<le> n"
  shows "parse_values n
           (iterencode level' y
            @ concat (map (\<lambda>z. ('','' @ newline_indent level') @ z) (map (iterencode level') ys))
            @ newline_indent level @ CHR '']'' # rest)
         = Some (y # ys, rest)"
  using assms
proof (induction ys arbitrary: y n)
  case Nil
  from Nil.prems(2) obtain m where n: "n = Suc m" "depth_bound y \<le> m"
    by (cases n) auto
  have "scan_once m (iterencode level' y @ newline_indent level @ CHR '']'' # rest)
      = Some (y, newline_indent level @ CHR '']'' # rest)"
    by (rule Nil.prems(1)) (simp_all add: n newline_indent_def)
  then show ?case
    by (simp add: n(1) skip_ws_newline_indent skip_ws_no_ws is_ws_def)
next
  case (Cons z zs)
  from Cons.prems(2) obtain m where n: "n = Suc m" "depth_bound y \<le> m"
    "sum_list (map (\<lambda>x. Suc (depth_bound x)) (z # zs)) \<le> m"
    by (cases n) auto
  let ?tail = "iterencode level' z
      @ concat (map (\<lambda>z. ('','' @ newline_indent level') @ z) (map (iterencode level') zs))
      @ newline_indent level @ CHR '']'' # rest"
  have "scan_once m (iterencode level' y @ CHR '','' # newline_indent level' @ ?tail)
      = Some (y, CHR '','' # newline_indent level' @ ?tail)"
    by (rule Cons.prems(1)) (simp_all add: n)
  moreover have "parse_values m ?tail = Some (z # zs, rest)"
  proof (rule Cons.IH)
    show "sum_list (map (\<lambda>x. Suc (depth_bound x)) (z # zs)) \<le> m" by (rule n(3))
  next
    fix x k r
    assume "x \<in> set (z # zs)" "depth_bound x \<le> k" "take 1 r \<in> {[], '','', [CHR 0x0A]}"
    then show "scan_once k (iterencode level' x @ r) = Some (x, r)"
      using Cons.prems(1) [of x k r] by simp
  qed
  ultimately show ?case
    using skip_ws_iterencode [of level' z]
    by (simp add: n(1) skip_ws_newline_indent skip_ws_no_ws is_ws_def)
qed

lemma scan_once_encoded:
  "well_formed v \<Longrightarrow> depth_bound v \<le> n \<Longrightarrow> take 1 rest \<in> {[], '','', [CHR 0x0A]} \<Longrightarrow>
   scan_once n (iterencode level v @ rest) = Some (v, rest)"
proof (induction v arbitrary: n level rest)
  case (PScalar x)
  then obtain m where n: "n = Suc m" by (cases n) auto
  from PScalar.prems(3) have "scan_once (Suc m) (encode_scalar x @ rest) = Some (PScalar x, rest)"
    by (rule scan_once_scalar)
  then show ?case by (simp only: n iterencode.simps)
next
  case (PDict dct)
  then obtain m where "n = Suc m" "length dct \<le> m" by (cases n) auto
  with PDict show ?case using scan_once_encode_dict [of dct m level rest] by simp
next
  case (PList lst)
  from PList.prems obtain m where n: "n = Suc m" "sum_list (map (\<lambda>x. Suc (depth_bound x)) lst) \<le> m"
    by (cases n) auto
  show ?case
  proof (cases lst)
    case Nil
    then show ?thesis by (simp add: n(1) skip_ws_no_ws is_ws_def)
  next
    case (Cons y ys)
    obtain c cs where c: "iterencode (Suc level) y = c # cs" "\<not> is_ws c" "c \<noteq> CHR '']''"
      using iterencode_first by blast
    have "parse_values m
           (iterencode (Suc level) y
            @ concat (map (\<lambda>z. ('','' @ newline_indent (Suc level)) @ z) (map (iterencode (Suc level)) ys))
            @ newline_indent level @ CHR '']'' # rest)
         = Some (y # ys, rest)"
    proof (rule parse_values_encoded)
      show "sum_list (map (\<lambda>x. Suc (depth_bound x)) (y # ys)) \<le> m"
        using n(2) Cons by simp
    next
      fix x k r
      assume "x \<in> set (y # ys)" "depth_bound x \<le> k" "take 1 r \<in> {[], '','', [CHR 0x0A]}"
      then show "scan_once k (iterencode (Suc level) x @ r) = Some (x, r)"
        using PList.IH [of x k r "Suc level"] PList.prems(1) Cons
        by (auto simp: list_all_iff)
    qed
    then show ?thesis
      using c by (simp add: Cons n(1) join_Cons skip_ws_newline_indent skip_ws_no_ws)
  qed
qed

lemma depth_bound_concat:
  assumes "\<And>y. y \<in> set ys \<Longrightarrow> depth_bound y \<le> length (f y)" "sep \<noteq> []"
  shows "sum_list (map (\<lambda>y. Suc (depth_bound y)) ys) \<le> length (concat (map (\<lambda>y. sep @ f y) ys))"
  using assms(1)
proof (induction ys)
  case Nil
  then show ?case by simp
next
  case (Cons y ys)
  have "Suc (depth_bound y) \<le> length (sep @ f y)"
    using Cons.prems [of y] assms(2) by (cases sep) simp_all
  moreover have "sum_list (map (\<lambda>y. Suc (depth_bound y)) ys) \<le> length (concat (map (\<lambda>y. sep @ f y) ys))"
    using Cons by simp
  ultimately show ?case by simp
qed

lemma depth_bound_le_length: "depth_bound v \<le> length (iterencode level v)"
proof (induction v arbitrary: level)
  case (PScalar x)
  obtain c cs where "encode_scalar x = c # cs" using encode_scalar_first by blast
  then show ?case by simp
next
  case (PDict dct)
  then show ?case using length_encode_dict [of dct level] by simp
next
  case (PList lst)
  show ?case
  proof (cases lst)
    case Nil
    then show ?thesis by simp
  next
    case (Cons y ys)
    have "depth_bound y \<le> length (iterencode (Suc level) y)"
      using PList.IH [of y "Suc level"] Cons by simp
    moreover have "sum_list (map (\<lambda>y. Suc (depth_bound y)) ys)
        \<le> length (concat (map (\<lambda>y. ('','' @ newline_indent (Suc level)) @ iterencode (Suc level) y) ys))"
      by (rule depth_bound_concat) (use PList.IH Cons in auto)
    ultimately show ?thesis
      by (simp add: Cons join_Cons comp_def newline_indent_def)
  qed
qed

lemma json_loads_dumps:
  assumes "well_formed v"
  shows "json_loads (json_dumps v) = Some v"
proof -
  have "scan_once (length (iterencode 0 v)) (iterencode 0 v @ []) = Some (v, [])"
    by (rule scan_once_encoded [OF assms depth_bound_le_length]) simp
  then show ?thesis
    using skip_ws_iterencode [of 0 v "[]"]
    unfolding json_loads_def json_dumps_def
    by (simp add: skip_ws_def)
qed

lemma json_export_round_trip:
  assumes "well_formed data" "store_data_as_json data filename fs = Inr (fs', printed)"
  shows "Option.bind (read_text fs' filename) json_loads = Some data"
  using assms by (auto simp: store_data_as_json_def read_write_text json_loads_dumps)

end
